theory Spec2Isabelle
  imports Complex_Main
begin

section \<open>MultiPointConstraint: cell classification (src/dolfin/main/SubSystemsManager.cpp)\<close>

text \<open>
  The constraint object holds the function space (of which the classifier reads the
  number of cells of the mesh's top dimension and the cell-to-dof table of the dofmap),
  the constructor's arrays, and the four arrays the classifier fills. Cell indices and
  the counter \<open>j\<close> are natural numbers (the source stores them in 64-bit integers; a
  rank holds far fewer than \<open>2^31\<close> cells). Dof indices are the integer values of
  \<open>PetscInt\<close>; slave indices are the integer values of \<open>std::int64_t\<close>.
\<close>

record MultiPointConstraint =
  mesh_num_cells :: nat
  dofmap_cell_dofs :: "nat \<Rightarrow> int list"
  slaves :: "int list"
  masters :: "int list"
  coefficients :: "real list"
  offsets :: "int list"
  slave_cells :: "nat list"
  normal_cells :: "nat list"
  offsets_cell_to_slave :: "nat list"
  cell_to_slave :: "int list"

text \<open>The C++ conversion \<open>unsigned(x)\<close> to a 32-bit unsigned integer.\<close>

definition unsigned :: "int \<Rightarrow> int" where
  "unsigned x = x mod 2 ^ 32"

text \<open>
  The innermost loop \<open>for (i = 0; i < dofs.size(); ++i)\<close> for one slave: every dof
  that equals the slave appends the slave to \<open>_cell_to_slave\<close>, increments \<open>j\<close> and
  sets the flag. The loop state is \<open>(_cell_to_slave, j, slave_cell)\<close>.
\<close>

fun dof_loop :: "int \<Rightarrow> int list \<Rightarrow> int list \<times> nat \<times> bool \<Rightarrow> int list \<times> nat \<times> bool" where
  "dof_loop slave [] st = st"
| "dof_loop slave (d # ds) (c2s, j, slave_cell) =
     dof_loop slave ds
       (if unsigned d = slave then (c2s @ [slave], j + 1, True) else (c2s, j, slave_cell))"

text \<open>The loop \<open>for (auto slave : _slaves)\<close> around it.\<close>

fun slave_loop :: "int list \<Rightarrow> int list \<Rightarrow> int list \<times> nat \<times> bool \<Rightarrow> int list \<times> nat \<times> bool" where
  "slave_loop [] dofs st = st"
| "slave_loop (s # ss) dofs st = slave_loop ss dofs (dof_loop s dofs st)"

text \<open>The body of the loop over the cells; the loop state is the object and \<open>j\<close>.\<close>

definition cell_step :: "nat \<Rightarrow> MultiPointConstraint \<times> nat \<Rightarrow> MultiPointConstraint \<times> nat" where
  "cell_step cell_index st =
     (case st of (mpc, j) \<Rightarrow>
       (case slave_loop (slaves mpc) (dofmap_cell_dofs mpc cell_index)
               (cell_to_slave mpc, j, False) of
          (c2s, j', slave_cell) \<Rightarrow>
            if slave_cell
            then (mpc\<lparr>cell_to_slave := c2s,
                      slave_cells := slave_cells mpc @ [cell_index],
                      offsets_cell_to_slave := offsets_cell_to_slave mpc @ [j']\<rparr>, j')
            else (mpc\<lparr>cell_to_slave := c2s,
                      normal_cells := normal_cells mpc @ [cell_index]\<rparr>, j')))"

text \<open>
  \<open>MultiPointConstraint::cell_classification\<close>: returns the pair
  \<open>(_slave_cells, _normal_cells)\<close> and the updated object.
\<close>

definition cell_classification ::
  "MultiPointConstraint \<Rightarrow> (nat list \<times> nat list) \<times> MultiPointConstraint" where
  "cell_classification mpc =
     (if length (slave_cells mpc) > 0
      then ((slave_cells mpc, normal_cells mpc), mpc)
      else
        (let mpc1 = mpc\<lparr>offsets_cell_to_slave := offsets_cell_to_slave mpc @ [0]\<rparr>;
             mpc2 = fst (fold cell_step [0..<mesh_num_cells mpc] (mpc1, 0))
         in ((slave_cells mpc2, normal_cells mpc2), mpc2)))"

text \<open>\<open>MultiPointConstraint::cell_to_slave_mapping\<close>.\<close>

definition cell_to_slave_mapping :: "MultiPointConstraint \<Rightarrow> int list \<times> nat list" where
  "cell_to_slave_mapping mpc = (cell_to_slave mpc, offsets_cell_to_slave mpc)"

text \<open>
  The constructor: the four classifier arrays start empty and the constructor body runs
  \<open>cell_classification\<close> once.
\<close>

definition fresh :: "nat \<Rightarrow> (nat \<Rightarrow> int list) \<Rightarrow> int list \<Rightarrow> int list \<Rightarrow> real list \<Rightarrow> int list
    \<Rightarrow> MultiPointConstraint" where
  "fresh n dofs sl ma co off =
     \<lparr>mesh_num_cells = n, dofmap_cell_dofs = dofs, slaves = sl, masters = ma,
      coefficients = co, offsets = off, slave_cells = [], normal_cells = [],
      offsets_cell_to_slave = [], cell_to_slave = []\<rparr>"

definition MultiPointConstraint_ctor :: "nat \<Rightarrow> (nat \<Rightarrow> int list) \<Rightarrow> int list \<Rightarrow> int list
    \<Rightarrow> real list \<Rightarrow> int list \<Rightarrow> MultiPointConstraint" where
  "MultiPointConstraint_ctor n dofs sl ma co off =
     snd (cell_classification (fresh n dofs sl ma co off))"

text \<open>A cell touches a slave when one of its dofs equals one of the slave dofs.\<close>

definition touches_slave :: "MultiPointConstraint \<Rightarrow> nat \<Rightarrow> bool" where
  "touches_slave mpc c = (\<exists>d \<in> set (dofmap_cell_dofs mpc c). d \<in> set (slaves mpc))"

text \<open>Well-formed dof indices: non-negative and representable in 32 bits unsigned.\<close>

definition dofs_in_range :: "MultiPointConstraint \<Rightarrow> bool" where
  "dofs_in_range mpc =
     (\<forall>c < mesh_num_cells mpc. \<forall>d \<in> set (dofmap_cell_dofs mpc c). 0 \<le> d \<and> d < 2 ^ 32)"

text \<open>
  Auxiliary notions for the proofs: the slaves one cell appends to the flat array, in
  the order of the two nested loops; the test the flag \<open>slave_cell\<close> ends up with; and
  the invariant of the loop over the cells.
\<close>

definition matches :: "int list \<Rightarrow> int list \<Rightarrow> int list" where
  "matches ss ds =
     concat (map (\<lambda>s. replicate (length (filter (\<lambda>d. unsigned d = s) ds)) s) ss)"

definition hit :: "int list \<Rightarrow> (nat \<Rightarrow> int list) \<Rightarrow> nat \<Rightarrow> bool" where
  "hit sl dofs c = (\<exists>s \<in> set sl. \<exists>d \<in> set (dofs c). unsigned d = s)"

definition csr_inv :: "MultiPointConstraint \<times> nat \<Rightarrow> bool" where
  "csr_inv st = (case st of (mpc, j) \<Rightarrow>
     j = length (cell_to_slave mpc) \<and> offsets_cell_to_slave mpc \<noteq> [] \<and>
     sorted (offsets_cell_to_slave mpc) \<and> last (offsets_cell_to_slave mpc) = j \<and>
     length (offsets_cell_to_slave mpc) = length (slave_cells mpc) + 1)"


section \<open>NonlinearProblem: the deprecation sentinel (src/dolfin/nls/NonlinearProblem.h)\<close>

text \<open>
  The state of a problem object: the private sentinel \<open>_called\<close>, the number of
  deprecation warnings issued so far, and the state of the subclass.
\<close>

record 'u NonlinearProblem =
  called :: bool
  deprecations :: nat
  derived :: 'u

text \<open>
  What a subclass supplies for the virtual three-argument \<open>form(A, b, x)\<close>: nothing
  (the base body is dispatched), or an override. The sentinel is private, so an override
  acts on the subclass's own state and can reach the sentinel only by calling the base
  body \<open>NonlinearProblem::form(A, b, x)\<close>; the flag of \<open>Override\<close> says whether it
  does.
\<close>

datatype 'u form3_impl = NotOverridden | Override "'u \<Rightarrow> 'u" bool

definition NonlinearProblem_ctor :: "'u \<Rightarrow> 'u NonlinearProblem" where
  "NonlinearProblem_ctor u = \<lparr>called = False, deprecations = 0, derived = u\<rparr>"

text \<open>The base body of the three-argument form.\<close>

definition form3_base :: "'u NonlinearProblem \<Rightarrow> 'u NonlinearProblem" where
  "form3_base p = p\<lparr>called := True\<rparr>"

text \<open>Virtual dispatch of \<open>form(A, b, x)\<close>.\<close>

fun form3 :: "'u form3_impl \<Rightarrow> 'u NonlinearProblem \<Rightarrow> 'u NonlinearProblem" where
  "form3 NotOverridden p = form3_base p"
| "form3 (Override f calls_base) p =
     (let p' = p\<lparr>derived := f (derived p)\<rparr> in if calls_base then form3_base p' else p')"

text \<open>The base body of the four-argument \<open>form(A, P, b, x)\<close>.\<close>

definition form4 :: "'u form3_impl \<Rightarrow> 'u NonlinearProblem \<Rightarrow> 'u NonlinearProblem" where
  "form4 impl p =
     (let p1 = form3 impl p;
          p2 = (if \<not> called p1 then p1\<lparr>deprecations := deprecations p1 + 1\<rparr> else p1)
      in p2\<lparr>called := False\<rparr>)"

fun overrides :: "'u form3_impl \<Rightarrow> bool" where
  "overrides NotOverridden = False"
| "overrides (Override f calls_base) = True"

text \<open>Whether the dispatched call executes the base three-argument body.\<close>

fun runs_base_body :: "'u form3_impl \<Rightarrow> bool" where
  "runs_base_body NotOverridden = True"
| "runs_base_body (Override f calls_base) = calls_base"

text \<open>Whether a call of the four-argument form from state \<open>p\<close> issues the warning.\<close>

definition warns :: "'u form3_impl \<Rightarrow> 'u NonlinearProblem \<Rightarrow> bool" where
  "warns impl p = (deprecations (form4 impl p) = deprecations p + 1)"

section \<open>Assembler: data model (src/cpp/dolfin/fem/Assembler.cpp)\<close>

text \<open>
  Scalars (\<open>double\<close>, \<open>PetscScalar\<close>) are modelled as real numbers: the properties below
  concern which entries are zeroed, assigned or accumulated and in which order, not rounding.
  Dof indices and sizes are natural numbers.
\<close>

datatype Method = topological | geometric | pointwise

text \<open>
  Modelled from the spec: the requested topology enum \<open>{nested, monolithic, single-auto}\<close>;
  the header that declares \<open>BlockType\<close> is not among the sources. The code compares the
  value with \<open>nested\<close> and \<open>monolithic\<close> only.
\<close>

datatype BlockType = nested | monolithic | single_auto

text \<open>
  \<open>common::IndexMap\<close>, consumed through \<open>size(OWNED)\<close>, \<open>size(GHOSTS)\<close>, \<open>size(ALL)\<close>
  and \<open>block_size()\<close>.
\<close>

record IndexMap =
  size_OWNED :: nat
  size_GHOSTS :: nat
  block_size :: nat

text \<open>
  Modelled from the spec: the \<open>ALL\<close> count of an index map is owned + ghost; the class
  \<open>IndexMap\<close> is not among the sources.
\<close>

definition size_ALL :: "IndexMap \<Rightarrow> nat" where
  "size_ALL m = size_OWNED m + size_GHOSTS m"

text \<open>
  A function space: its identity (the code compares the shared pointers), the cell-to-dof
  table and the index map of its dofmap, and the relation \<open>contains\<close>, given on the
  identities of the other spaces.
\<close>

record FunctionSpace =
  space_id :: nat
  cell_dofs :: "nat \<Rightarrow> nat list"
  index_map :: IndexMap
  contains :: "nat \<Rightarrow> bool"

text \<open>
  A Dirichlet condition: the identity of its function space, its method, the pairs
  (dof, value) that \<open>get_boundary_values\<close> yields on this rank, in the order it writes
  them, and the pairs that \<open>gather\<close> receives from the other ranks.
\<close>

record DirichletBC =
  bc_function_space :: nat
  bc_method :: Method
  bc_local_values :: "(nat \<times> real) list"
  bc_gathered_values :: "(nat \<times> real) list"

text \<open>
  A form: its two function spaces (a linear form uses the first only), the number of
  cells the mesh range iterates over, the size of the mesh's communicator, and the
  kernel. \<open>tabulate_tensor a c k\<close> is the value the kernel writes for cell \<open>c\<close> at
  position \<open>k\<close> of the zeroed buffer it is handed (zero where it writes nothing).
\<close>

record Form =
  function_space0 :: FunctionSpace
  function_space1 :: FunctionSpace
  mesh_cells :: nat
  mesh_mpi_size :: nat
  tabulate_tensor :: "nat \<Rightarrow> nat \<Rightarrow> real"

text \<open>
  The assembler object: the block array \<open>_a\<close> of bilinear forms, the array \<open>_l\<close> of
  linear forms (a null pointer is \<open>None\<close>), the conditions \<open>_bcs\<close>; and, from the
  environment, the size of \<open>MPI_COMM_WORLD\<close>.
\<close>

record Assembler =
  asm_a :: "Form option list list"
  asm_l :: "Form option list"
  asm_bcs :: "DirichletBC list"
  comm_world_size :: nat

datatype error = Runtime_error string | Assertion_failed | Undefined_behaviour

subsection \<open>Boundary-value maps\<close>

text \<open>
  \<open>DirichletBC::Map\<close> is an ordered map with unique keys: a list of pairs in ascending
  key order. \<open>map_set k v\<close> is the assignment \<open>boundary_values[k] = v\<close>.
\<close>

type_synonym bc_map = "(nat \<times> real) list"

fun map_set :: "nat \<Rightarrow> real \<Rightarrow> bc_map \<Rightarrow> bc_map" where
  "map_set k v [] = [(k, v)]"
| "map_set k v ((k', v') # m) =
     (if k < k' then (k, v) # (k', v') # m
      else if k = k' then (k, v) # m
      else (k', v') # map_set k v m)"

text \<open>\<open>boundary_values.find(ii) != boundary_values.end()\<close>.\<close>

definition bc_found :: "bc_map \<Rightarrow> nat \<Rightarrow> bool" where
  "bc_found bv ii = (map_of bv ii \<noteq> None)"

text \<open>
  Modelled from the spec: \<open>DirichletBC::get_boundary_values\<close> merges the condition's local
  (dof, value) pairs into the map, a later write winning on a duplicate key; the class
  \<open>DirichletBC\<close> is not among the sources.
\<close>

definition get_boundary_values :: "DirichletBC \<Rightarrow> bc_map \<Rightarrow> bc_map" where
  "get_boundary_values bc bv = fold (\<lambda>(d, g). map_set d g) (bc_local_values bc) bv"

text \<open>
  Modelled from the spec: \<open>DirichletBC::gather\<close> merges the values received from the
  other ranks into the map.
\<close>

definition gather :: "DirichletBC \<Rightarrow> bc_map \<Rightarrow> bc_map" where
  "gather bc bv = fold (\<lambda>(d, g). map_set d g) (bc_gathered_values bc) bv"

text \<open>
  The loop that every routine of the file runs over the conditions to build the map of
  one function space \<open>V\<close>: a condition whose space \<open>V\<close> contains contributes its values, and
  is gathered when the communicator of size \<open>comm_size\<close> has more than one rank and the
  method is not pointwise.
\<close>

fun collect_boundary_values ::
  "nat \<Rightarrow> FunctionSpace \<Rightarrow> DirichletBC list \<Rightarrow> bc_map \<Rightarrow> bc_map" where
  "collect_boundary_values comm_size V [] bv = bv"
| "collect_boundary_values comm_size V (bc # bcs) bv =
     collect_boundary_values comm_size V bcs
       (if contains V (bc_function_space bc)
        then (let bv1 = get_boundary_values bc bv
              in if comm_size > 1 \<and> bc_method bc \<noteq> pointwise then gather bc bv1 else bv1)
        else bv)"

subsection \<open>The matrix container as the sequence of calls made on it\<close>

datatype AssemblyType = FLUSH | FINAL

datatype MatType = MATNEST | MATOTHER

text \<open>An index set made by \<open>ISCreateBlock\<close>: the block size and the indices.\<close>

datatype IS = ISBlock nat "nat list"

text \<open>
  The \<open>Mat\<close> handle a call addresses: the matrix \<open>A\<close> itself, the sub-matrix \<open>(i, j)\<close> of a
  nested matrix, or the local sub-matrix view through two index sets.
\<close>

datatype Mat = Whole | NestSubMat nat nat | LocalSubMatrix IS IS

datatype mat_call =
    Init_nest_matrix
  | Init_monolithic_matrix
  | Init_matrix
  | GetLocalSubMatrix IS IS
  | RestoreLocalSubMatrix IS IS
  | Add_local Mat "nat list" "nat list" "real list list"
  | Set_local Mat nat nat real
  | Apply Mat AssemblyType

text \<open>
  The state of a \<open>PETScMatrix\<close>: its PETSc type (\<open>None\<close> while it is empty) and the calls
  made on it so far, oldest first.
\<close>

record PETScMatrix =
  mat_type :: "MatType option"
  mat_calls :: "mat_call list"

subsection \<open>Assembly of one bilinear form into one matrix\<close>

text \<open>
  The element matrix after \<open>Ae.resize(rows, cols); Ae.setZero(); a.tabulate_tensor(Ae.data(), ...)\<close>,
  as the list of its rows (\<open>EigenRowMatrixXd\<close> is row-major).
\<close>

definition tabulate_Ae :: "Form \<Rightarrow> nat \<Rightarrow> nat \<Rightarrow> nat \<Rightarrow> real list list" where
  "tabulate_Ae a c rows cols =
     map (\<lambda>i. map (\<lambda>j. tabulate_tensor a c (i * cols + j)) [0..<cols]) [0..<rows]"

text \<open>\<open>Ae.row(i).setZero()\<close> and \<open>Ae.col(j).setZero()\<close>.\<close>

definition row_setZero :: "nat \<Rightarrow> real list list \<Rightarrow> real list list" where
  "row_setZero i Ae = Ae[i := map (\<lambda>x. 0) (Ae ! i)]"

definition col_setZero :: "nat \<Rightarrow> real list list \<Rightarrow> real list list" where
  "col_setZero j Ae = map (\<lambda>row. row[j := 0]) Ae"

text \<open>The two loops \<open>Zero rows/columns for Dirichlet bcs\<close>.\<close>

definition zero_bc_rows :: "bc_map \<Rightarrow> nat list \<Rightarrow> real list list \<Rightarrow> real list list" where
  "zero_bc_rows bv0 dmap0 Ae =
     fold (\<lambda>i Ae. if bc_found bv0 (dmap0 ! i) then row_setZero i Ae else Ae) [0..<length Ae] Ae"

definition zero_bc_cols :: "bc_map \<Rightarrow> nat list \<Rightarrow> real list list \<Rightarrow> real list list" where
  "zero_bc_cols bv1 dmap1 Ae =
     fold (\<lambda>j Ae. if bc_found bv1 (dmap1 ! j) then col_setZero j Ae else Ae) [0..<length dmap1] Ae"

text \<open>The body of the cell loop: the one \<open>add_local\<close> call it makes on the matrix \<open>A\<close>.\<close>

definition assemble_cell :: "Mat \<Rightarrow> Form \<Rightarrow> bc_map \<Rightarrow> bc_map \<Rightarrow> nat \<Rightarrow> mat_call" where
  "assemble_cell A a bv0 bv1 c =
     (let dmap0 = cell_dofs (function_space0 a) c;
          dmap1 = cell_dofs (function_space1 a) c;
          Ae = tabulate_Ae a c (length dmap0) (length dmap1);
          Ae = zero_bc_rows bv0 dmap0 Ae;
          Ae = zero_bc_cols bv1 dmap1 Ae
      in Add_local A dmap0 dmap1 Ae)"

text \<open>
  \<open>Assembler::assemble(PETScMatrix& A, const Form& a, bcs)\<close>: the calls it makes on \<open>A\<close>.
  The two maps (one per axis) are filled in one loop over the conditions in the source;
  the maps do not depend on each other.
\<close>

definition assemble_form :: "Mat \<Rightarrow> Form \<Rightarrow> DirichletBC list \<Rightarrow> mat_call list" where
  "assemble_form A a bcs =
     (let bv0 = collect_boundary_values (mesh_mpi_size a) (function_space0 a) bcs [];
          bv1 = collect_boundary_values (mesh_mpi_size a) (function_space1 a) bcs []
      in map (assemble_cell A a bv0 bv1) [0..<mesh_cells a])"

subsection \<open>The block loops of \<open>Assembler::assemble(PETScMatrix&, BlockType)\<close>\<close>

text \<open>
  \<open>Place '1' on diagonal\<close>, as the nested and the single branch do it (\<open>set_local\<close> for
  every key of the map), and as the monolithic branch does it (\<open>add_local\<close>, for the keys
  below the owned size only).
\<close>

definition diagonal_set_local :: "Mat \<Rightarrow> bc_map \<Rightarrow> mat_call list" where
  "diagonal_set_local A bv = map (\<lambda>bc. Set_local A (fst bc) (fst bc) 1) bv"

definition diagonal_add_local :: "Mat \<Rightarrow> nat \<Rightarrow> bc_map \<Rightarrow> mat_call list" where
  "diagonal_add_local A map0_size_owned bv =
     map (\<lambda>bc. Add_local A [fst bc] [fst bc] [[1]]) (filter (\<lambda>bc. fst bc < map0_size_owned) bv)"

text \<open>The body of the nested branch for a non-null block \<open>(i, j)\<close>.\<close>

definition nest_block :: "Assembler \<Rightarrow> nat \<Rightarrow> nat \<Rightarrow> Form \<Rightarrow> mat_call list" where
  "nest_block asm i j a =
     assemble_form (NestSubMat i j) a (asm_bcs asm)
     @ [Apply (NestSubMat i j) FLUSH]
     @ (if space_id (function_space0 a) = space_id (function_space1 a)
        then diagonal_set_local (NestSubMat i j)
               (collect_boundary_values (comm_world_size asm) (function_space0 a) (asm_bcs asm) [])
        else [])"

fun nest_cols :: "Assembler \<Rightarrow> nat \<Rightarrow> nat \<Rightarrow> Form option list \<Rightarrow> mat_call list" where
  "nest_cols asm i j [] = []"
| "nest_cols asm i j (None # row) = nest_cols asm i (j + 1) row"
| "nest_cols asm i j (Some a # row) = nest_block asm i j a @ nest_cols asm i (j + 1) row"

fun nest_rows :: "Assembler \<Rightarrow> nat \<Rightarrow> Form option list list \<Rightarrow> mat_call list" where
  "nest_rows asm i [] = []"
| "nest_rows asm i (row # rows) = nest_cols asm i 0 row @ nest_rows asm (i + 1) rows"

text \<open>The body of the monolithic branch for a non-null block at the given offsets.\<close>

definition mono_block :: "Assembler \<Rightarrow> nat \<Rightarrow> nat \<Rightarrow> Form \<Rightarrow> mat_call list" where
  "mono_block asm offset_row offset_col a =
     (let map0 = index_map (function_space0 a);
          map1 = index_map (function_space1 a);
          is0 = ISBlock (block_size map0) [offset_row ..< offset_row + size_ALL map0];
          is1 = ISBlock (block_size map1) [offset_col ..< offset_col + size_ALL map1];
          mat = LocalSubMatrix is0 is1
      in [GetLocalSubMatrix is0 is1]
         @ assemble_form mat a (asm_bcs asm)
         @ [Apply mat FLUSH]
         @ (if space_id (function_space0 a) = space_id (function_space1 a)
            then diagonal_add_local mat (size_OWNED map0)
                   (collect_boundary_values (comm_world_size asm) (function_space0 a) (asm_bcs asm) [])
            else [])
         @ [RestoreLocalSubMatrix is0 is1])"

text \<open>
  The loop over the columns of one row: a null block throws, with the calls of the
  blocks before it already made.
\<close>

fun mono_cols :: "Assembler \<Rightarrow> nat \<Rightarrow> nat \<Rightarrow> Form option list \<Rightarrow> error option \<times> mat_call list" where
  "mono_cols asm offset_row offset_col [] = (None, [])"
| "mono_cols asm offset_row offset_col (None # row) =
     (Some (Runtime_error ''Null block not supported/tested yet.''), [])"
| "mono_cols asm offset_row offset_col (Some a # row) =
     (case mono_cols asm offset_row (offset_col + size_ALL (index_map (function_space1 a))) row of
        (e, calls) \<Rightarrow> (e, mono_block asm offset_row offset_col a @ calls))"

text \<open>
  The loop over the rows. After the columns of row \<open>i\<close> it reads \<open>_a[i][0]\<close> to advance the
  row offset; on an empty row that read is out of range.
\<close>

fun mono_rows :: "Assembler \<Rightarrow> nat \<Rightarrow> Form option list list \<Rightarrow> error option \<times> mat_call list" where
  "mono_rows asm offset_row [] = (None, [])"
| "mono_rows asm offset_row (row # rows) =
     (case mono_cols asm offset_row 0 row of
        (Some e, calls) \<Rightarrow> (Some e, calls)
      | (None, calls) \<Rightarrow>
          (case row of
             Some a # _ \<Rightarrow>
               (case mono_rows asm (offset_row + size_ALL (index_map (function_space0 a))) rows of
                  (e, calls') \<Rightarrow> (e, calls @ calls'))
           | _ \<Rightarrow> (Some Undefined_behaviour, calls)))"

text \<open>The single branch, for the form \<open>*_a[0][0]\<close>.\<close>

definition single_block :: "Assembler \<Rightarrow> Form \<Rightarrow> mat_call list" where
  "single_block asm a =
     assemble_form Whole a (asm_bcs asm)
     @ [Apply Whole FLUSH]
     @ (if space_id (function_space0 a) = space_id (function_space1 a)
        then diagonal_set_local Whole
               (collect_boundary_values (comm_world_size asm) (function_space0 a) (asm_bcs asm) [])
        else [])"

text \<open>The form \<open>_a[0][0]\<close>, where there is one.\<close>

definition a00 :: "Assembler \<Rightarrow> Form option" where
  "a00 asm = (case asm_a asm of (Some a # _) # _ \<Rightarrow> Some a | _ \<Rightarrow> None)"

definition block_matrix :: "Assembler \<Rightarrow> bool" where
  "block_matrix asm = (length (asm_a asm) > 1 \<or> length (hd (asm_a asm)) > 1)"

text \<open>
  \<open>if (A.empty())\<close>: the initialiser chosen for an empty matrix. Modelled from the spec:
  the initialisers are the external storage layer's constructors (they are not among the
  sources); the nested one yields a matrix of type \<open>MATNEST\<close>, the other two do not.
\<close>

definition init_if_empty :: "Assembler \<Rightarrow> BlockType \<Rightarrow> PETScMatrix \<Rightarrow> error option \<times> PETScMatrix" where
  "init_if_empty asm block_type A =
     (if mat_type A \<noteq> None then (None, A)
      else if block_type = nested
        then (None, A\<lparr>mat_type := Some MATNEST, mat_calls := mat_calls A @ [Init_nest_matrix]\<rparr>)
      else if block_matrix asm \<and> block_type = monolithic
        then (None, A\<lparr>mat_type := Some MATOTHER, mat_calls := mat_calls A @ [Init_monolithic_matrix]\<rparr>)
      else (case a00 asm of
              None \<Rightarrow> (Some Undefined_behaviour, A)
            | Some a \<Rightarrow> (None, A\<lparr>mat_type := Some MATOTHER, mat_calls := mat_calls A @ [Init_matrix]\<rparr>)))"

text \<open>
  \<open>Assembler::assemble(PETScMatrix& A, BlockType block_type)\<close>: the error thrown, if any,
  and the matrix as the call leaves it.
\<close>

definition assemble_matrix :: "Assembler \<Rightarrow> BlockType \<Rightarrow> PETScMatrix \<Rightarrow> error option \<times> PETScMatrix" where
  "assemble_matrix asm block_type A =
     (if asm_a asm = [] then (Some Assertion_failed, A)
      else
        (case init_if_empty asm block_type A of
           (Some e, A1) \<Rightarrow> (Some e, A1)
         | (None, A1) \<Rightarrow>
             if mat_type A1 = Some MATNEST
             then (None, A1\<lparr>mat_calls := mat_calls A1 @ nest_rows asm 0 (asm_a asm)
                                            @ [Apply Whole FINAL]\<rparr>)
             else if block_matrix asm
             then (case mono_rows asm 0 (asm_a asm) of
                     (Some e, calls) \<Rightarrow> (Some e, A1\<lparr>mat_calls := mat_calls A1 @ calls\<rparr>)
                   | (None, calls) \<Rightarrow>
                       (None, A1\<lparr>mat_calls := mat_calls A1 @ calls @ [Apply Whole FINAL]
                                                  @ [Apply Whole FINAL]\<rparr>))
             else (case a00 asm of
                     None \<Rightarrow> (Some Undefined_behaviour, A1)
                   | Some a \<Rightarrow>
                       (None, A1\<lparr>mat_calls := mat_calls A1 @ single_block asm a
                                                  @ [Apply Whole FINAL]\<rparr>))))"

subsection \<open>Notions used to state the properties of the block loops\<close>

text \<open>The index sets of the \<open>MatGetLocalSubMatrix\<close> calls among the calls, in order.\<close>

fun local_submatrix_calls :: "mat_call list \<Rightarrow> (IS \<times> IS) list" where
  "local_submatrix_calls [] = []"
| "local_submatrix_calls (GetLocalSubMatrix is0 is1 # cs) = (is0, is1) # local_submatrix_calls cs"
| "local_submatrix_calls (c # cs) = local_submatrix_calls cs"

text \<open>
  The offsets in the words of the offset rule: for block \<open>(i, j)\<close>, the row offset is the
  sum of the sizes \<open>sz\<close> of the test-space index maps of the rows before \<open>i\<close> (each taken
  from the row's first block), and the column offset is the sum of the sizes \<open>sz\<close> of the
  trial-space index maps of the blocks before \<open>j\<close> in row \<open>i\<close>.
\<close>

definition offset_row_of :: "(IndexMap \<Rightarrow> nat) \<Rightarrow> Form list list \<Rightarrow> nat \<Rightarrow> nat" where
  "offset_row_of sz a i =
     sum_list (map (\<lambda>row. sz (index_map (function_space0 (hd row)))) (take i a))"

definition offset_col_of :: "(IndexMap \<Rightarrow> nat) \<Rightarrow> Form list \<Rightarrow> nat \<Rightarrow> nat" where
  "offset_col_of sz row j =
     sum_list (map (\<lambda>f. sz (index_map (function_space1 f))) (take j row))"

text \<open>The pair of index sets of a block whose ranges start at the given offsets.\<close>

definition block_index_sets :: "nat \<Rightarrow> nat \<Rightarrow> Form \<Rightarrow> IS \<times> IS" where
  "block_index_sets offset_row offset_col f =
     (ISBlock (block_size (index_map (function_space0 f)))
        [offset_row ..< offset_row + size_ALL (index_map (function_space0 f))],
      ISBlock (block_size (index_map (function_space1 f)))
        [offset_col ..< offset_col + size_ALL (index_map (function_space1 f))])"

text \<open>The index sets of all blocks, row by row, under the offset rule with sizes \<open>sz\<close>.\<close>

definition index_sets_by_rule :: "(IndexMap \<Rightarrow> nat) \<Rightarrow> Form list list \<Rightarrow> (IS \<times> IS) list" where
  "index_sets_by_rule sz a =
     concat (map (\<lambda>i. map (\<lambda>j. block_index_sets (offset_row_of sz a i)
                                  (offset_col_of sz (a ! i) j) (a ! i ! j))
                          [0..<length (a ! i)])
                 [0..<length a])"

text \<open>The calls of the nested branch for the non-null blocks, row by row.\<close>

definition nest_calls_of_blocks :: "Assembler \<Rightarrow> mat_call list" where
  "nest_calls_of_blocks asm =
     concat (map (\<lambda>i. concat (map (\<lambda>j. case asm_a asm ! i ! j of
                                          None \<Rightarrow> []
                                        | Some a \<Rightarrow> nest_block asm i j a)
                                  [0..<length (asm_a asm ! i)]))
                 [0..<length (asm_a asm)])"

section \<open>Assembler: vector assembly\<close>

subsection \<open>Ghosted vectors\<close>

text \<open>
  What is recorded of the operations on a vector: the ghost update
  \<open>VecGhostUpdateBegin/End(ADD_VALUES, SCATTER_REVERSE)\<close> and the assignments of
  \<open>set_bc\<close> to entries of its array.
\<close>

datatype vec_event = GhostUpdate_ADD_REVERSE | Array_assign nat real

text \<open>
  A ghosted PETSc vector on this rank: the number of owned entries (\<open>VecGetLocalSize\<close>),
  the array of its local form (the owned entries followed by the ghost entries), and the
  recorded operations, oldest first.
\<close>

record Vec =
  vec_local_size :: nat
  vec_array :: "real list"
  vec_events :: "vec_event list"

text \<open>
  A \<open>PETScVector\<close>: empty, of type \<open>VECNEST\<close> with its sub-vectors, or a ghosted vector of
  another type.
\<close>

datatype PETScVector = Vec_empty | Vec_nest "Vec list" | Vec_ghosted Vec

text \<open>
  Modelled from the spec: the ghost-reduction step sums the contributions from ghost
  entries back to the owning rank. On this rank, owned entry \<open>k\<close> receives the sum
  \<open>incoming k\<close> of what the other ranks hold for it in their ghost entries; the ghost entries
  of this rank stay as they are. PETSc is not among the sources.
\<close>

definition VecGhostUpdate :: "(nat \<Rightarrow> real) \<Rightarrow> Vec \<Rightarrow> Vec" where
  "VecGhostUpdate incoming v =
     v\<lparr>vec_array := map (\<lambda>k. if k < vec_local_size v then vec_array v ! k + incoming k
                              else vec_array v ! k) [0..<length (vec_array v)],
       vec_events := vec_events v @ [GhostUpdate_ADD_REVERSE]\<rparr>"

subsection \<open>Assembly of one linear form into an array\<close>

text \<open>The element vector after \<open>be.resize(n); be.setZero(); L.tabulate_tensor(be.data(), ...)\<close>.\<close>

definition tabulate_be :: "Form \<Rightarrow> nat \<Rightarrow> nat \<Rightarrow> real list" where
  "tabulate_be L c n = map (tabulate_tensor L c) [0..<n]"

text \<open>
  The loop \<open>b[dmap[i]] += be[i]\<close>. An index beyond the array is undefined behaviour in the
  source; the model leaves the array as it is there.
\<close>

definition add_to_vector :: "nat list \<Rightarrow> real list \<Rightarrow> real list \<Rightarrow> real list" where
  "add_to_vector dmap be b =
     fold (\<lambda>i b. b[dmap ! i := b ! (dmap ! i) + be ! i]) [0..<length dmap] b"

text \<open>
  \<open>Assembler::assemble(Eigen::Ref<EigenVectorXd> b, const Form& L)\<close>; the overload on a
  \<open>Vec\<close> calls it on the whole array of the vector.
\<close>

definition assemble_eigen :: "Form \<Rightarrow> real list \<Rightarrow> real list" where
  "assemble_eigen L b =
     fold (\<lambda>c b. let dmap = cell_dofs (function_space0 L) c
                 in add_to_vector dmap (tabulate_be L c (length dmap)) b)
       [0..<mesh_cells L] b"

subsection \<open>\<open>Assembler::set_bc\<close>\<close>

text \<open>
  The argument \<open>b\<close> of \<open>set_bc\<close> is a view of \<open>b_size\<close> entries of the vector's array that
  starts at \<open>offset\<close>. For every pair of the map whose key is below \<open>b_size\<close>, the entry is
  assigned the value.
\<close>

definition set_bc :: "nat \<Rightarrow> nat \<Rightarrow> Form \<Rightarrow> DirichletBC list \<Rightarrow> Vec \<Rightarrow> Vec" where
  "set_bc offset b_size L bcs v =
     (let boundary_values =
            collect_boundary_values (mesh_mpi_size L) (function_space0 L) bcs []
      in fold (\<lambda>bc v. if fst bc < b_size
                        then v\<lparr>vec_array := (vec_array v)[offset + fst bc := snd bc],
                               vec_events := vec_events v @ [Array_assign (offset + fst bc) (snd bc)]\<rparr>
                        else v)
           boundary_values v)"

subsection \<open>The three branches of \<open>Assembler::assemble(PETScVector&, BlockType)\<close>\<close>

text \<open>The body of the nested branch for block \<open>i\<close>, on the sub-vector \<open>sub_b\<close>.\<close>

definition nest_vec_block :: "(nat \<Rightarrow> real) \<Rightarrow> DirichletBC list \<Rightarrow> Form \<Rightarrow> Vec \<Rightarrow> Vec" where
  "nest_vec_block incoming bcs L sub_b =
     (let v1 = sub_b\<lparr>vec_array := assemble_eigen L (vec_array sub_b)\<rparr>;
          v2 = VecGhostUpdate incoming v1
      in set_bc 0 (vec_local_size v2) L bcs v2)"

text \<open>
  The loop of the nested branch. \<open>VecNestGetSubVec\<close> with an index that the nested vector
  does not have leaves \<open>sub_b\<close> unset.
\<close>

fun nest_vec_loop ::
  "(nat \<Rightarrow> nat \<Rightarrow> real) \<Rightarrow> DirichletBC list \<Rightarrow> nat \<Rightarrow> Form list \<Rightarrow> Vec list \<Rightarrow> error option \<times> Vec list" where
  "nest_vec_loop incoming bcs i [] subs = (None, subs)"
| "nest_vec_loop incoming bcs i (L # Ls) subs =
     (if i < length subs
      then nest_vec_loop incoming bcs (i + 1) Ls
             (subs[i := nest_vec_block (incoming i) bcs L (subs ! i)])
      else (Some Undefined_behaviour, subs))"

text \<open>The owned and ghost sizes of the index map of a linear form.\<close>

definition owned_size :: "Form \<Rightarrow> nat" where
  "owned_size L = size_OWNED (index_map (function_space0 L))"

definition ghost_size :: "Form \<Rightarrow> nat" where
  "ghost_size L = size_GHOSTS (index_map (function_space0 L))"

text \<open>
  The body of the first loop of the monolithic branch for block \<open>i\<close>: the offsets, the
  assembly into a zeroed \<open>b_vec\<close>, and the copy into the array of the local form.
\<close>

definition mono_vec_block :: "Form list \<Rightarrow> nat \<Rightarrow> real list \<Rightarrow> real list" where
  "mono_vec_block Ls i values_array =
     (let map_size0 = owned_size (Ls ! i);
          map_size1 = ghost_size (Ls ! i);
          offset0 = sum_list (map owned_size (take i Ls));
          offset1 = sum_list (map owned_size Ls) + sum_list (map ghost_size (take i Ls));
          b_vec = assemble_eigen (Ls ! i) (replicate (map_size0 + map_size1) 0);
          values_array = fold (\<lambda>j vs. vs[offset0 + j := b_vec ! j]) [0..<map_size0] values_array;
          values_array = fold (\<lambda>j vs. vs[offset1 + j := b_vec ! (map_size0 + j)]) [0..<map_size1]
                           values_array
      in values_array)"

text \<open>The last loop of the monolithic branch: \<open>set_bc\<close> on each block's owned segment.\<close>

fun mono_set_bc_loop :: "DirichletBC list \<Rightarrow> nat \<Rightarrow> Form list \<Rightarrow> Vec \<Rightarrow> Vec" where
  "mono_set_bc_loop bcs offset [] v = v"
| "mono_set_bc_loop bcs offset (L # Ls) v =
     mono_set_bc_loop bcs (offset + owned_size L) Ls (set_bc offset (owned_size L) L bcs v)"

definition mono_vec :: "(nat \<Rightarrow> real) \<Rightarrow> DirichletBC list \<Rightarrow> Form list \<Rightarrow> Vec \<Rightarrow> Vec" where
  "mono_vec incoming bcs Ls b =
     (let v1 = b\<lparr>vec_array := fold (mono_vec_block Ls) [0..<length Ls] (vec_array b)\<rparr>;
          v2 = VecGhostUpdate incoming v1
      in mono_set_bc_loop bcs 0 Ls v2)"

text \<open>The single branch, for the form \<open>*_l[0]\<close>.\<close>

definition single_vec :: "(nat \<Rightarrow> real) \<Rightarrow> DirichletBC list \<Rightarrow> Form \<Rightarrow> Vec \<Rightarrow> Vec" where
  "single_vec incoming bcs L b =
     (let v1 = b\<lparr>vec_array := assemble_eigen L (vec_array b)\<rparr>;
          v2 = VecGhostUpdate incoming v1
      in set_bc 0 (owned_size L) L bcs v2)"

text \<open>
  \<open>if (b.empty())\<close>. Modelled from the spec: the initialisers are the external storage
  layer's constructors (not among the sources); they are taken to allocate zeroed ghosted
  vectors of the sizes of the index maps, the nested one a vector of type \<open>VECNEST\<close> with
  one sub-vector per form. The source sizes the array \<open>forms\<close> by \<open>_a.size()\<close> and fills it
  from \<open>_l\<close>: with different sizes it writes out of range or passes null forms on.
\<close>

definition zero_vec :: "nat \<Rightarrow> nat \<Rightarrow> Vec" where
  "zero_vec n_owned n_ghosts =
     \<lparr>vec_local_size = n_owned, vec_array = replicate (n_owned + n_ghosts) 0, vec_events = []\<rparr>"

definition init_vector_if_empty ::
  "Assembler \<Rightarrow> BlockType \<Rightarrow> Form list \<Rightarrow> PETScVector \<Rightarrow> error option \<times> PETScVector" where
  "init_vector_if_empty asm block_type Ls b =
     (if b \<noteq> Vec_empty then (None, b)
      else if length (asm_a asm) \<noteq> length Ls then (Some Undefined_behaviour, b)
      else if block_type = nested
        then (None, Vec_nest (map (\<lambda>L. zero_vec (owned_size L) (ghost_size L)) Ls))
      else if length Ls > 1 \<and> block_type = monolithic
        then (None, Vec_ghosted (zero_vec (sum_list (map owned_size Ls))
                                          (sum_list (map ghost_size Ls))))
      else (None, Vec_ghosted (zero_vec (owned_size (hd Ls)) (ghost_size (hd Ls)))))"

text \<open>
  \<open>Assembler::assemble(PETScVector& b, BlockType block_type)\<close>: the error thrown, if any,
  and the vector as the call leaves it. \<open>incoming i k\<close> is what the ghost update of block
  \<open>i\<close> (of the whole vector, for \<open>i = 0\<close>, outside the nested branch) adds to owned entry \<open>k\<close>.
\<close>

definition assemble_vector ::
  "Assembler \<Rightarrow> BlockType \<Rightarrow> (nat \<Rightarrow> nat \<Rightarrow> real) \<Rightarrow> PETScVector \<Rightarrow> error option \<times> PETScVector" where
  "assemble_vector asm block_type incoming b =
     (if asm_l asm = [] then (Some Assertion_failed, b)
      else
        (case those (asm_l asm) of
           None \<Rightarrow> (Some (Runtime_error ''Cannot have NULL linear form block.''), b)
         | Some Ls \<Rightarrow>
             (case init_vector_if_empty asm block_type Ls b of
                (Some e, b1) \<Rightarrow> (Some e, b1)
              | (None, Vec_empty) \<Rightarrow> (Some Undefined_behaviour, Vec_empty)
              | (None, Vec_nest subs) \<Rightarrow>
                  (case nest_vec_loop incoming (asm_bcs asm) 0 Ls subs of
                     (e, subs') \<Rightarrow> (e, Vec_nest subs'))
              | (None, Vec_ghosted v) \<Rightarrow>
                  if length Ls > 1
                  then (None, Vec_ghosted (mono_vec (incoming 0) (asm_bcs asm) Ls v))
                  else (None, Vec_ghosted (single_vec (incoming 0) (asm_bcs asm) (hd Ls) v)))))"

subsection \<open>Notions used to state the properties of the vector assembly\<close>

text \<open>The map of prescribed values that \<open>set_bc\<close> builds for the linear form \<open>L\<close>.\<close>

definition prescribed :: "Form \<Rightarrow> DirichletBC list \<Rightarrow> bc_map" where
  "prescribed L bcs = collect_boundary_values (mesh_mpi_size L) (function_space0 L) bcs []"

text \<open>
  The assignments of one \<open>set_bc\<close> call on a segment: one per prescribed dof below the
  segment's size, in key order.
\<close>

definition bc_assignments :: "nat \<Rightarrow> nat \<Rightarrow> bc_map \<Rightarrow> vec_event list" where
  "bc_assignments offset b_size bv =
     map (\<lambda>bc. Array_assign (offset + fst bc) (snd bc)) (filter (\<lambda>bc. fst bc < b_size) bv)"

text \<open>
  Every prescribed dof below the segment's size holds its prescribed value in the array.
\<close>

definition segment_holds :: "nat \<Rightarrow> nat \<Rightarrow> bc_map \<Rightarrow> real list \<Rightarrow> bool" where
  "segment_holds offset b_size bv arr =
     (\<forall>d g. map_of bv d = Some g \<and> d < b_size \<longrightarrow> arr ! (offset + d) = g)"

text \<open>The offset of block \<open>i\<close>'s owned segment in a monolithic vector.\<close>

definition owned_offset :: "Form list \<Rightarrow> nat \<Rightarrow> nat" where
  "owned_offset Ls i = sum_list (map owned_size (take i Ls))"

text \<open>
  The vector is large enough for the owned segments the branch addresses: every
  sub-vector of a nested vector holds its owned entries, and a ghosted vector holds the
  owned entries of all blocks.
\<close>

fun vector_fits :: "Form list \<Rightarrow> PETScVector \<Rightarrow> bool" where
  "vector_fits Ls Vec_empty = False"
| "vector_fits Ls (Vec_nest subs) =
     (length Ls \<le> length subs \<and>
      (\<forall>i < length Ls. vec_local_size (subs ! i) \<le> length (vec_array (subs ! i))))"
| "vector_fits Ls (Vec_ghosted v) = (sum_list (map owned_size Ls) \<le> length (vec_array v))"

text \<open>
  The operations the call records on the vector \<open>b1\<close> it works on, leaving \<open>b'\<close>: on every
  (sub-)vector, one ghost update and after it the assignments of the prescribed entries,
  block by block.
\<close>

fun reduced_then_assigned :: "DirichletBC list \<Rightarrow> Form list \<Rightarrow> PETScVector \<Rightarrow> PETScVector \<Rightarrow> bool" where
  "reduced_then_assigned bcs Ls (Vec_nest subs) (Vec_nest subs') =
     (length subs' = length subs \<and>
      (\<forall>i < length Ls.
         vec_events (subs' ! i) =
           vec_events (subs ! i) @ GhostUpdate_ADD_REVERSE
             # bc_assignments 0 (vec_local_size (subs ! i)) (prescribed (Ls ! i) bcs)))"
| "reduced_then_assigned bcs Ls (Vec_ghosted v) (Vec_ghosted v') =
     (vec_events v' =
        vec_events v @ GhostUpdate_ADD_REVERSE
          # concat (map (\<lambda>i. bc_assignments (owned_offset Ls i) (owned_size (Ls ! i))
                               (prescribed (Ls ! i) bcs))
                        [0..<length Ls]))"
| "reduced_then_assigned bcs Ls b1 b' = False"

text \<open>
  Every prescribed dof within the owned segment of its block holds its prescribed value
  in the vector \<open>b'\<close> the call leaves.
\<close>

fun prescribed_values_hold :: "DirichletBC list \<Rightarrow> Form list \<Rightarrow> PETScVector \<Rightarrow> bool" where
  "prescribed_values_hold bcs Ls Vec_empty = False"
| "prescribed_values_hold bcs Ls (Vec_nest subs') =
     (\<forall>i < length Ls.
        segment_holds 0 (vec_local_size (subs' ! i)) (prescribed (Ls ! i) bcs)
          (vec_array (subs' ! i)))"
| "prescribed_values_hold bcs Ls (Vec_ghosted v') =
     (\<forall>i < length Ls.
        segment_holds (owned_offset Ls i) (owned_size (Ls ! i)) (prescribed (Ls ! i) bcs)
          (vec_array v'))"

text \<open>
  The pairs one condition contributes to a map built over a communicator of size
  \<open>comm_size\<close>, in the order they are written; and whether the condition applies to the
  function space \<open>V\<close>.
\<close>

definition bc_contribution :: "nat \<Rightarrow> DirichletBC \<Rightarrow> (nat \<times> real) list" where
  "bc_contribution comm_size bc =
     bc_local_values bc
     @ (if comm_size > 1 \<and> bc_method bc \<noteq> pointwise then bc_gathered_values bc else [])"

definition applies_to :: "FunctionSpace \<Rightarrow> DirichletBC \<Rightarrow> bool" where
  "applies_to V bc = contains V (bc_function_space bc)"

text \<open>
  Last write wins: the condition \<open>bc\<close> applies to the space of \<open>L\<close>, the last value it
  writes for dof \<open>d\<close> is \<open>g\<close>, and no condition after it in the list that applies
  prescribes \<open>d\<close>.
\<close>

definition last_prescription :: "Form \<Rightarrow> DirichletBC list \<Rightarrow> nat \<Rightarrow> real \<Rightarrow> bool" where
  "last_prescription L bcs d g =
     (\<exists>pre bc post. bcs = pre @ bc # post \<and> applies_to (function_space0 L) bc \<and>
        map_of (rev (bc_contribution (mesh_mpi_size L) bc)) d = Some g \<and>
        (\<forall>bc' \<in> set post. applies_to (function_space0 L) bc' \<longrightarrow>
           d \<notin> fst ` set (bc_contribution (mesh_mpi_size L) bc')))"

section \<open>Assembler: \<open>apply_bc\<close>, the modification of the right-hand side\<close>

text \<open>The calls \<open>apply_bc\<close> makes on the vector \<open>b\<close>.\<close>

datatype vector_call = Vector_add_local "real list" "nat list" | Vector_apply

text \<open>
  The loop over the columns: \<open>be -= Ae.col(j) * bc->second\<close> for every column whose dof is
  in the map.
\<close>

definition eliminate_columns :: "bc_map \<Rightarrow> nat list \<Rightarrow> real list list \<Rightarrow> real list \<Rightarrow> real list" where
  "eliminate_columns boundary_values dmap1 Ae be =
     fold (\<lambda>j be. case map_of boundary_values (dmap1 ! j) of
                     None \<Rightarrow> be
                   | Some g \<Rightarrow> map (\<lambda>i. be ! i - Ae ! i ! j * g) [0..<length be])
       [0..<length dmap1] be"

text \<open>
  The body of the cell loop, given the dof list \<open>dmap0\<close> the body uses for the rows: no
  call when no dof of \<open>dmap1\<close> is in the map, else one \<open>add_local\<close> call.
\<close>

definition apply_bc_cell :: "Form \<Rightarrow> bc_map \<Rightarrow> nat list \<Rightarrow> nat \<Rightarrow> vector_call list" where
  "apply_bc_cell a boundary_values dmap0 c =
     (let dmap1 = cell_dofs (function_space1 a) c;
          has_bc = list_ex (bc_found boundary_values) dmap1
      in if \<not> has_bc then []
         else
           (let Ae = tabulate_Ae a c (length dmap0) (length dmap1);
                be = eliminate_columns boundary_values dmap1 Ae (replicate (length dmap0) 0)
            in [Vector_add_local be dmap0]))"

text \<open>
  \<open>Assembler::apply_bc\<close>. The source takes the rows from
  \<open>auto dmap0 = dofmap1->cell_dofs(cell.index())\<close>, the dofmap of the trial space; the
  dofmap \<open>dofmap0\<close> of the test space is fetched before the loop and not used.
\<close>

definition apply_bc :: "Form \<Rightarrow> DirichletBC list \<Rightarrow> vector_call list" where
  "apply_bc a bcs =
     (let boundary_values =
            collect_boundary_values (mesh_mpi_size a) (function_space1 a) bcs []
      in concat (map (\<lambda>c. apply_bc_cell a boundary_values (cell_dofs (function_space1 a) c) c)
                     [0..<mesh_cells a])
         @ [Vector_apply])"

text \<open>
  The pass in the words of the elimination rule: the contribution of a cell goes to the
  cell's test-space dof positions.
\<close>

definition apply_bc_at_test_dofs :: "Form \<Rightarrow> DirichletBC list \<Rightarrow> vector_call list" where
  "apply_bc_at_test_dofs a bcs =
     (let boundary_values =
            collect_boundary_values (mesh_mpi_size a) (function_space1 a) bcs []
      in concat (map (\<lambda>c. apply_bc_cell a boundary_values (cell_dofs (function_space0 a) c) c)
                     [0..<mesh_cells a])
         @ [Vector_apply])"

section \<open>Concrete inputs\<close>

text \<open>
  A run on two ranks, seen from one of them. Two function spaces on the rank's two cells:
  \<open>space_P\<close> with two owned dofs and one ghost (cell \<open>c\<close> has the dofs \<open>c\<close> and \<open>c + 1\<close>, so
  dof 2 is the ghost), and \<open>space_Q\<close> with three owned dofs and one ghost (cell \<open>c\<close> has the
  dof \<open>c\<close>). The kernel of \<open>form_on\<close> writes \<open>10 c + k + 1\<close> at position \<open>k\<close> for cell \<open>c\<close>. The
  condition \<open>bc_P\<close> prescribes, on \<open>space_P\<close>, the value 3 at the owned dof 0, and receives
  through \<open>gather\<close> the value 5 for the ghost dof 2.
\<close>

definition space_P :: FunctionSpace where
  "space_P = \<lparr>space_id = 0, cell_dofs = (\<lambda>c. [c, c + 1]),
              index_map = \<lparr>size_OWNED = 2, size_GHOSTS = 1, block_size = 1\<rparr>,
              contains = (\<lambda>k. k = 0)\<rparr>"

definition space_Q :: FunctionSpace where
  "space_Q = \<lparr>space_id = 1, cell_dofs = (\<lambda>c. [c]),
              index_map = \<lparr>size_OWNED = 3, size_GHOSTS = 1, block_size = 1\<rparr>,
              contains = (\<lambda>k. k = 1)\<rparr>"

definition form_on :: "FunctionSpace \<Rightarrow> FunctionSpace \<Rightarrow> Form" where
  "form_on U V = \<lparr>function_space0 = U, function_space1 = V, mesh_cells = 2, mesh_mpi_size = 2,
                  tabulate_tensor = (\<lambda>c k. real (10 * c + k + 1))\<rparr>"

definition bc_P :: DirichletBC where
  "bc_P = \<lparr>bc_function_space = 0, bc_method = topological,
           bc_local_values = [(0, 3)], bc_gathered_values = [(2, 5)]\<rparr>"

definition assembler_of :: "Form option list list \<Rightarrow> Form option list \<Rightarrow> Assembler" where
  "assembler_of a L = \<lparr>asm_a = a, asm_l = L, asm_bcs = [bc_P], comm_world_size = 2\<rparr>"

definition empty_matrix :: PETScMatrix where
  "empty_matrix = \<lparr>mat_type = None, mat_calls = []\<rparr>"

text \<open>
  A second condition on \<open>space_P\<close>, which prescribes the value 7 at dof 0 and the value 9
  at dof 1; a condition on \<open>space_Q\<close>; and linear forms on the two spaces.
\<close>

definition bc_P2 :: DirichletBC where
  "bc_P2 = \<lparr>bc_function_space = 0, bc_method = topological,
            bc_local_values = [(0, 7), (1, 9)], bc_gathered_values = []\<rparr>"

definition bc_Q :: DirichletBC where
  "bc_Q = \<lparr>bc_function_space = 1, bc_method = pointwise,
           bc_local_values = [(1, 4)], bc_gathered_values = []\<rparr>"

definition vector_assembler :: "Form option list \<Rightarrow> Assembler" where
  "vector_assembler L =
     \<lparr>asm_a = map (\<lambda>f. [f]) L, asm_l = L, asm_bcs = [bc_P, bc_P2, bc_Q], comm_world_size = 2\<rparr>"

text \<open>
  A third space, with two dofs per cell as \<open>space_P\<close> has but other dof numbers: cell \<open>c\<close>
  has the dofs \<open>c + 3\<close> and \<open>c + 4\<close>.
\<close>

definition space_R :: FunctionSpace where
  "space_R = \<lparr>space_id = 2, cell_dofs = (\<lambda>c. [c + 3, c + 4]),
              index_map = \<lparr>size_OWNED = 6, size_GHOSTS = 0, block_size = 1\<rparr>,
              contains = (\<lambda>k. k = 2)\<rparr>"

section \<open>Properties of the cell classification\<close>

lemma unsigned_id: "0 \<le> d \<Longrightarrow> d < 2 ^ 32 \<Longrightarrow> unsigned d = d"
  by (simp add: unsigned_def)

lemma dof_loop_spec:
  "dof_loop s ds (c2s, j, sc) =
     (c2s @ replicate (length (filter (\<lambda>d. unsigned d = s) ds)) s,
      j + length (filter (\<lambda>d. unsigned d = s) ds),
      sc \<or> (\<exists>d \<in> set ds. unsigned d = s))"
  by (induction ds arbitrary: c2s j sc) (auto simp: replicate_append_same)

lemma slave_loop_spec:
  "slave_loop ss ds (c2s, j, sc) =
     (c2s @ matches ss ds, j + length (matches ss ds),
      sc \<or> (\<exists>s \<in> set ss. \<exists>d \<in> set ds. unsigned d = s))"
  by (induction ss arbitrary: c2s j sc) (auto simp: dof_loop_spec matches_def)

lemma cell_step_spec:
  "cell_step c (mpc, j) =
     (if hit (slaves mpc) (dofmap_cell_dofs mpc) c
      then (mpc\<lparr>cell_to_slave := cell_to_slave mpc @ matches (slaves mpc) (dofmap_cell_dofs mpc c),
                slave_cells := slave_cells mpc @ [c],
                offsets_cell_to_slave := offsets_cell_to_slave mpc
                   @ [j + length (matches (slaves mpc) (dofmap_cell_dofs mpc c))]\<rparr>,
            j + length (matches (slaves mpc) (dofmap_cell_dofs mpc c)))
      else (mpc\<lparr>cell_to_slave := cell_to_slave mpc @ matches (slaves mpc) (dofmap_cell_dofs mpc c),
                normal_cells := normal_cells mpc @ [c]\<rparr>,
            j + length (matches (slaves mpc) (dofmap_cell_dofs mpc c))))"
  by (simp add: cell_step_def slave_loop_spec hit_def)

lemma matches_no_hit: "\<not> hit sl dofs c \<Longrightarrow> matches sl (dofs c) = []"
  by (auto simp: matches_def hit_def filter_empty_conv)

lemma sorted_le_last: "sorted xs \<Longrightarrow> x \<in> set xs \<Longrightarrow> x \<le> last (xs :: nat list)"
  by (induction xs) auto

lemma cell_step_inv: "csr_inv st \<Longrightarrow> csr_inv (cell_step c st)"
  by (cases st) (auto simp: cell_step_spec csr_inv_def matches_no_hit sorted_append
      dest!: sorted_le_last)

lemma fold_cell_step_inv: "csr_inv st \<Longrightarrow> csr_inv (fold cell_step cs st)"
  by (induction cs arbitrary: st) (simp_all add: cell_step_inv)

lemma cell_step_frame:
  "slaves (fst (cell_step c st)) = slaves (fst st) \<and>
   dofmap_cell_dofs (fst (cell_step c st)) = dofmap_cell_dofs (fst st) \<and>
   mesh_num_cells (fst (cell_step c st)) = mesh_num_cells (fst st)"
  by (cases st) (simp add: cell_step_spec)

lemma cell_step_cells:
  "slave_cells (fst (cell_step c st)) =
      slave_cells (fst st) @ filter (hit (slaves (fst st)) (dofmap_cell_dofs (fst st))) [c] \<and>
   normal_cells (fst (cell_step c st)) =
      normal_cells (fst st) @ filter (\<lambda>c. \<not> hit (slaves (fst st)) (dofmap_cell_dofs (fst st)) c) [c]"
  by (cases st) (simp add: cell_step_spec)

lemma fold_cell_step_spec:
  "slaves (fst st) = sl \<Longrightarrow> dofmap_cell_dofs (fst st) = dofs \<Longrightarrow>
   slaves (fst (fold cell_step cs st)) = sl \<and>
   dofmap_cell_dofs (fst (fold cell_step cs st)) = dofs \<and>
   mesh_num_cells (fst (fold cell_step cs st)) = mesh_num_cells (fst st) \<and>
   slave_cells (fst (fold cell_step cs st)) = slave_cells (fst st) @ filter (hit sl dofs) cs \<and>
   normal_cells (fst (fold cell_step cs st)) =
     normal_cells (fst st) @ filter (\<lambda>c. \<not> hit sl dofs c) cs"
proof (induction cs arbitrary: st)
  case Nil
  then show ?case by simp
next
  case (Cons c cs)
  have fr: "slaves (fst (cell_step c st)) = sl" "dofmap_cell_dofs (fst (cell_step c st)) = dofs"
    using Cons.prems cell_step_frame [of c st] by simp_all
  show ?case
    using Cons.IH [OF fr] cell_step_cells [of c st] cell_step_frame [of c st] Cons.prems
    by simp
qed

lemma hit_touches:
  assumes "\<forall>d \<in> set (dofs c). 0 \<le> d \<and> d < 2 ^ 32"
  shows "hit sl dofs c \<longleftrightarrow> (\<exists>d \<in> set (dofs c). d \<in> set sl)"
  using assms by (auto simp: hit_def unsigned_id)

lemma ctor_unfold:
  "MultiPointConstraint_ctor n dofs sl ma co off =
     fst (fold cell_step [0..<n] ((fresh n dofs sl ma co off)\<lparr>offsets_cell_to_slave := [0]\<rparr>, 0))"
  by (simp add: MultiPointConstraint_ctor_def cell_classification_def fresh_def Let_def)

lemma ctor_inv:
  "csr_inv (fold cell_step [0..<n] ((fresh n dofs sl ma co off)\<lparr>offsets_cell_to_slave := [0]\<rparr>, 0))"
  by (rule fold_cell_step_inv) (simp add: csr_inv_def fresh_def)

lemma ctor_cells:
  fixes n dofs sl ma co off
  defines "mpc \<equiv> MultiPointConstraint_ctor n dofs sl ma co off"
  shows "slaves mpc = sl" "dofmap_cell_dofs mpc = dofs" "mesh_num_cells mpc = n"
    "slave_cells mpc = filter (hit sl dofs) [0..<n]"
    "normal_cells mpc = filter (\<lambda>c. \<not> hit sl dofs c) [0..<n]"
  using fold_cell_step_spec [of "((fresh n dofs sl ma co off)\<lparr>offsets_cell_to_slave := [0]\<rparr>, 0)"
      sl dofs "[0..<n]"]
  by (simp_all add: mpc_def ctor_unfold fresh_def)

text \<open>
  Claim C7. After the one run of the classifier that the constructor performs on a fresh
  constraint set whose cell dofs are well-formed indices, every cell of the mesh is in
  exactly one of \<open>slave_cells\<close> and \<open>normal_cells\<close> (the two are disjoint, hold no cell
  twice and together hold the cells \<open>0..<n\<close>), a cell is a slave cell iff one of its
  dofs equals a slave dof, and the offsets array is nondecreasing, has one entry more
  than there are slave cells, and ends with the length of the flat cell-to-slave array.
\<close>

theorem classification_partition_csr:
  fixes n dofs sl ma co off
  defines "mpc \<equiv> MultiPointConstraint_ctor n dofs sl ma co off"
  assumes "dofs_in_range (fresh n dofs sl ma co off)"
  shows "set (slave_cells mpc) \<inter> set (normal_cells mpc) = {} \<and>
         set (slave_cells mpc) \<union> set (normal_cells mpc) = {0..<mesh_num_cells mpc} \<and>
         distinct (slave_cells mpc @ normal_cells mpc) \<and>
         (\<forall>c < mesh_num_cells mpc. c \<in> set (slave_cells mpc) \<longleftrightarrow> touches_slave mpc c) \<and>
         sorted (offsets_cell_to_slave mpc) \<and>
         length (offsets_cell_to_slave mpc) = length (slave_cells mpc) + 1 \<and>
         last (offsets_cell_to_slave mpc) = length (cell_to_slave mpc)"
proof -
  have rng: "\<forall>c < n. \<forall>d \<in> set (dofs c). 0 \<le> d \<and> d < 2 ^ 32"
    using assms(2) by (simp add: dofs_in_range_def fresh_def)
  have inv: "csr_inv (mpc, snd (fold cell_step [0..<n]
      ((fresh n dofs sl ma co off)\<lparr>offsets_cell_to_slave := [0]\<rparr>, 0)))"
    using ctor_inv [of n dofs sl ma co off] by (simp add: mpc_def ctor_unfold)
  have touch: "c \<in> set (slave_cells mpc) \<longleftrightarrow> touches_slave mpc c" if "c < n" for c
    using that rng hit_touches [of dofs c sl]
    by (simp add: mpc_def ctor_cells touches_slave_def)
  show ?thesis
    using inv touch
    by (auto simp: csr_inv_def mpc_def ctor_cells)
qed

theorem classification_partition_csr_witness:
  "dofs_in_range (fresh 3 (\<lambda>c. [int c, int c + 1]) [1] [] [] []) \<and>
   set (slave_cells (MultiPointConstraint_ctor 3 (\<lambda>c. [int c, int c + 1]) [1] [] [] []))
     \<inter> set (normal_cells (MultiPointConstraint_ctor 3 (\<lambda>c. [int c, int c + 1]) [1] [] [] [])) = {} \<and>
   sorted (offsets_cell_to_slave (MultiPointConstraint_ctor 3 (\<lambda>c. [int c, int c + 1]) [1] [] [] [])) \<and>
   last (offsets_cell_to_slave (MultiPointConstraint_ctor 3 (\<lambda>c. [int c, int c + 1]) [1] [] [] []))
     = length (cell_to_slave (MultiPointConstraint_ctor 3 (\<lambda>c. [int c, int c + 1]) [1] [] [] []))"
proof -
  have h: "dofs_in_range (fresh 3 (\<lambda>c. [int c, int c + 1]) [1] [] [] [])"
    by (simp add: dofs_in_range_def fresh_def)
  show ?thesis
    using h classification_partition_csr [OF h] by blast
qed

text \<open>
  A second call returns the stored partition unchanged when the first run found at
  least one slave cell: the guard of the cache is \<open>_slave_cells.size() > 0\<close>.
\<close>

lemma cell_classification_cached:
  "slave_cells mpc \<noteq> [] \<Longrightarrow>
     cell_classification mpc = ((slave_cells mpc, normal_cells mpc), mpc)"
  by (simp add: cell_classification_def)

text \<open>
  Claim C6. A second call of the classifier without any change of the constraint set
  should return the partition and the offsets of the first call. On a mesh of two cells
  none of whose dofs is the slave dof 7, the run of the constructor leaves
  \<open>slave_cells\<close> empty, \<open>normal_cells = [0, 1]\<close> and the offsets \<open>[0]\<close>; the guard of the
  cache then fails, and the second call classifies again on top of the stored arrays: it
  returns \<open>normal_cells = [0, 1, 0, 1]\<close> and leaves the offsets \<open>[0, 0]\<close>.
\<close>

theorem second_classification_recomputes:
  "slave_cells (MultiPointConstraint_ctor 2 (\<lambda>c. [int c, int c + 1]) [7] [] [] []) = [] \<and>
   normal_cells (MultiPointConstraint_ctor 2 (\<lambda>c. [int c, int c + 1]) [7] [] [] []) = [0, 1] \<and>
   offsets_cell_to_slave (MultiPointConstraint_ctor 2 (\<lambda>c. [int c, int c + 1]) [7] [] [] []) = [0] \<and>
   fst (cell_classification (MultiPointConstraint_ctor 2 (\<lambda>c. [int c, int c + 1]) [7] [] [] []))
     = ([], [0, 1, 0, 1]) \<and>
   offsets_cell_to_slave
     (snd (cell_classification (MultiPointConstraint_ctor 2 (\<lambda>c. [int c, int c + 1]) [7] [] [] [])))
     = [0, 0]"
  by code_simp

section \<open>Properties of the deprecation sentinel\<close>

text \<open>
  Claim C10, as amended. A call of the base four-argument form on an object whose
  sentinel is clear (as the constructor and every earlier four-argument call leave it)
  issues the deprecation warning iff the dispatched three-argument form did not execute
  the base three-argument body. A subclass that does not override the three-argument
  form always executes it, so a warning implies an override. The sentinel is clear on
  return from every call, so a repeated call issues the warning under the same condition
  and differs from the first only in what the override does to the subclass's state.
\<close>

theorem form4_warning_and_reset:
  "(\<not> called p \<longrightarrow> (warns impl p \<longleftrightarrow> \<not> runs_base_body impl)) \<and>
   (\<not> overrides impl \<longrightarrow> runs_base_body impl) \<and>
   \<not> called (form4 impl p) \<and>
   (warns impl (form4 impl p) \<longleftrightarrow> \<not> runs_base_body impl) \<and>
   form4 impl (form4 impl p) =
     (form4 impl p)\<lparr>deprecations := deprecations (form4 impl p) + (if runs_base_body impl then 0 else 1),
                    derived := derived (form3 impl (form4 impl p))\<rparr>"
  by (cases impl) (auto simp: warns_def form4_def form3_base_def Let_def)

theorem form4_warning_and_reset_witness:
  "\<not> called (NonlinearProblem_ctor ()) \<and> warns (Override id False) (NonlinearProblem_ctor ()) \<and>
   overrides (Override id False :: unit form3_impl) \<and>
   \<not> warns NotOverridden (NonlinearProblem_ctor ())"
  using form4_warning_and_reset [of "NonlinearProblem_ctor ()" "Override id False"]
    form4_warning_and_reset [of "NonlinearProblem_ctor ()" "NotOverridden"]
  by (simp add: NonlinearProblem_ctor_def)

text \<open>
  The claim as stated fails for a subclass whose override of the three-argument form
  calls the base body: the subclass overrides the deprecated form, and the
  four-argument form issues no warning.
\<close>

theorem chaining_override_no_warning:
  "overrides (Override id True :: unit form3_impl) \<and>
   \<not> warns (Override id True) (NonlinearProblem_ctor ())"
  by (simp add: warns_def form4_def form3_base_def NonlinearProblem_ctor_def)

section \<open>Properties of the matrix assembly\<close>

subsection \<open>The element matrix of the plain assembler\<close>

lemma zero_rows_fold_length:
  "length (fold (\<lambda>i Ae. if P i then row_setZero i Ae else Ae) is Ae) = length Ae"
  by (induction "is" arbitrary: Ae) (simp_all add: row_setZero_def)

lemma zero_rows_fold_nth:
  "k < length Ae \<Longrightarrow>
     fold (\<lambda>i Ae. if P i then row_setZero i Ae else Ae) is Ae ! k =
       (if k \<in> set is \<and> P k then map (\<lambda>x. 0) (Ae ! k) else Ae ! k)"
proof (induction "is" arbitrary: Ae)
  case Nil
  then show ?case by simp
next
  case (Cons i "is")
  let ?f = "\<lambda>i Ae. if P i then row_setZero i Ae else Ae"
  let ?Ae1 = "?f i Ae"
  have len: "k < length ?Ae1" using Cons.prems by (simp add: row_setZero_def)
  have "fold ?f (i # is) Ae ! k = fold ?f is ?Ae1 ! k" by simp
  also have "\<dots> = (if k \<in> set is \<and> P k then map (\<lambda>x. 0) (?Ae1 ! k) else ?Ae1 ! k)"
    by (rule Cons.IH [OF len])
  also have "\<dots> = (if k \<in> set (i # is) \<and> P k then map (\<lambda>x. 0) (Ae ! k) else Ae ! k)"
    using Cons.prems by (cases "k = i") (auto simp: row_setZero_def)
  finally show ?case .
qed

lemma zero_bc_rows_spec:
  "length (zero_bc_rows bv dmap0 Ae) = length Ae"
  "i < length Ae \<Longrightarrow> zero_bc_rows bv dmap0 Ae ! i =
     (if bc_found bv (dmap0 ! i) then map (\<lambda>x. 0) (Ae ! i) else Ae ! i)"
  by (simp_all add: zero_bc_rows_def zero_rows_fold_length zero_rows_fold_nth)

lemma zero_cols_fold_length:
  "length (fold (\<lambda>j Ae. if P j then col_setZero j Ae else Ae) js Ae) = length Ae"
  by (induction js arbitrary: Ae) (simp_all add: col_setZero_def)

lemma zero_cols_fold_row_length:
  "i < length Ae \<Longrightarrow>
     length (fold (\<lambda>j Ae. if P j then col_setZero j Ae else Ae) js Ae ! i) = length (Ae ! i)"
  by (induction js arbitrary: Ae) (simp_all add: col_setZero_def)

lemma zero_cols_fold_nth:
  "i < length Ae \<Longrightarrow> k < length (Ae ! i) \<Longrightarrow>
     fold (\<lambda>j Ae. if P j then col_setZero j Ae else Ae) js Ae ! i ! k =
       (if k \<in> set js \<and> P k then 0 else Ae ! i ! k)"
proof (induction js arbitrary: Ae)
  case Nil
  then show ?case by simp
next
  case (Cons j js)
  let ?f = "\<lambda>j Ae. if P j then col_setZero j Ae else Ae"
  let ?Ae1 = "?f j Ae"
  have len: "i < length ?Ae1" "k < length (?Ae1 ! i)"
    using Cons.prems by (simp_all add: col_setZero_def)
  have "fold ?f (j # js) Ae ! i ! k = fold ?f js ?Ae1 ! i ! k" by simp
  also have "\<dots> = (if k \<in> set js \<and> P k then 0 else ?Ae1 ! i ! k)"
    by (rule Cons.IH [OF len])
  also have "\<dots> = (if k \<in> set (j # js) \<and> P k then 0 else Ae ! i ! k)"
    using Cons.prems by (cases "k = j") (auto simp: col_setZero_def)
  finally show ?case .
qed

lemma zero_bc_cols_spec:
  "length (zero_bc_cols bv dmap1 Ae) = length Ae"
  "i < length Ae \<Longrightarrow> length (zero_bc_cols bv dmap1 Ae ! i) = length (Ae ! i)"
  "i < length Ae \<Longrightarrow> j < length (Ae ! i) \<Longrightarrow> zero_bc_cols bv dmap1 Ae ! i ! j =
     (if j < length dmap1 \<and> bc_found bv (dmap1 ! j) then 0 else Ae ! i ! j)"
  by (simp_all add: zero_bc_cols_def zero_cols_fold_length zero_cols_fold_row_length
      zero_cols_fold_nth)

text \<open>
  Every element matrix handed to \<open>add_local\<close> has the rows of the test-space boundary dofs
  and the columns of the trial-space boundary dofs zeroed, and the kernel's values elsewhere.
\<close>

lemma assemble_cell_zeroed:
  fixes a c
  defines "dmap0 \<equiv> cell_dofs (function_space0 a) c"
    and "dmap1 \<equiv> cell_dofs (function_space1 a) c"
  shows "\<exists>Ae. assemble_cell M a bv0 bv1 c = Add_local M dmap0 dmap1 Ae \<and>
           length Ae = length dmap0 \<and>
           (\<forall>i < length dmap0. length (Ae ! i) = length dmap1 \<and>
              (\<forall>j < length dmap1.
                 Ae ! i ! j = (if bc_found bv0 (dmap0 ! i) \<or> bc_found bv1 (dmap1 ! j) then 0
                               else tabulate_tensor a c (i * length dmap1 + j))))"
  by (simp add: assemble_cell_def Let_def dmap0_def dmap1_def zero_bc_cols_spec zero_bc_rows_spec
      tabulate_Ae_def)

text \<open>
  Where row space and column space coincide, the single branch sets the unit diagonal for
  every key of the boundary map, in key order; it does not compare the key with the owned
  size.
\<close>

lemma single_block_diagonal:
  "space_id (function_space0 a) = space_id (function_space1 a) \<Longrightarrow>
   single_block asm a =
     assemble_form Whole a (asm_bcs asm) @ [Apply Whole FLUSH]
     @ map (\<lambda>d. Set_local Whole d d 1)
         (map fst (collect_boundary_values (comm_world_size asm) (function_space0 a) (asm_bcs asm) []))"
  by (simp add: single_block_def diagonal_set_local_def comp_def)

text \<open>
  The calls of one block are the additive insertions of the cells, then the flush, then
  the diagonal insertions: the assembly of a form makes \<open>add_local\<close> calls only, and the
  diagonal of the nested and single branches \<open>set_local\<close> calls only.
\<close>

lemma assemble_form_only_adds:
  "c \<in> set (assemble_form M a bcs) \<Longrightarrow> \<exists>rows cols Ae. c = Add_local M rows cols Ae"
  by (auto simp: assemble_form_def assemble_cell_def Let_def)

lemma diagonal_set_local_only_sets:
  "c \<in> set (diagonal_set_local M bv) \<Longrightarrow> \<exists>d. c = Set_local M d d 1"
  by (auto simp: diagonal_set_local_def)

text \<open>
  Claim C1. The single-block path should insert the unit diagonal for the boundary dofs
  the rank owns and at no other entry. For one form on \<open>space_P\<close> (two owned dofs, the
  ghost dof 2) with the boundary map \<open>{0, 2}\<close>, the element matrices are zeroed in the rows
  and columns of the boundary dofs, and after the flush the code sets the diagonal at dof
  0 and at the ghost dof 2, which the rank does not own.
\<close>

theorem single_block_sets_ghost_diagonal:
  "assemble_matrix (assembler_of [[Some (form_on space_P space_P)]] []) single_auto empty_matrix =
     (None, \<lparr>mat_type = Some MATOTHER,
             mat_calls = [Init_matrix,
                          Add_local Whole [0, 1] [0, 1] [[0, 0], [0, 4]],
                          Add_local Whole [1, 2] [1, 2] [[11, 0], [0, 0]],
                          Apply Whole FLUSH,
                          Set_local Whole 0 0 1, Set_local Whole 2 2 1,
                          Apply Whole FINAL]\<rparr>) \<and>
   size_OWNED (index_map space_P) = 2"
  by code_simp

subsection \<open>Null blocks\<close>

lemma upt_shift: "[Suc a..<Suc b] = map Suc [a..<b]"
  by (simp add: map_Suc_upt)

lemma nest_cols_spec:
  "nest_cols asm i j row =
     concat (map (\<lambda>k. case row ! k of None \<Rightarrow> [] | Some a \<Rightarrow> nest_block asm i (j + k) a)
       [0..<length row])"
proof (induction asm i j row rule: nest_cols.induct)
  case (1 asm i j)
  then show ?case by simp
next
  case (2 asm i j row)
  then show ?case
    by (simp add: upt_conv_Cons [of 0] upt_shift comp_def del: upt_Suc cong: option.case_cong)
next
  case (3 asm i j a row)
  then show ?case
    by (simp add: upt_conv_Cons [of 0] upt_shift comp_def del: upt_Suc cong: option.case_cong)
qed

lemma nest_rows_spec:
  "nest_rows asm i rows =
     concat (map (\<lambda>r. concat (map (\<lambda>k. case rows ! r ! k of None \<Rightarrow> []
                                        | Some a \<Rightarrow> nest_block asm (i + r) k a)
                                  [0..<length (rows ! r)]))
                 [0..<length rows])"
proof (induction rows arbitrary: i)
  case Nil
  then show ?case by simp
next
  case (Cons row rows)
  show ?case
    by (simp add: Cons.IH nest_cols_spec upt_conv_Cons [of 0] upt_shift comp_def del: upt_Suc cong: option.case_cong)
qed

lemma nest_rows_blocks: "nest_rows asm 0 (asm_a asm) = nest_calls_of_blocks asm"
  by (simp add: nest_rows_spec nest_calls_of_blocks_def cong: option.case_cong)

lemma mono_cols_no_null:
  "None \<notin> set row \<Longrightarrow> fst (mono_cols asm r c row) = None"
  by (induction asm r c row rule: mono_cols.induct) (auto split: prod.splits)

lemma mono_cols_null:
  "None \<in> set row \<Longrightarrow>
     fst (mono_cols asm r c row) = Some (Runtime_error ''Null block not supported/tested yet.'')"
  by (induction asm r c row rule: mono_cols.induct) (auto split: prod.splits)

lemma mono_rows_null:
  "None \<in> set (concat rows) \<Longrightarrow> [] \<notin> set rows \<Longrightarrow>
     fst (mono_rows asm r rows) = Some (Runtime_error ''Null block not supported/tested yet.'')"
proof (induction rows arbitrary: r)
  case Nil
  then show ?case by simp
next
  case (Cons row rows)
  show ?case
  proof (cases "None \<in> set row")
    case True
    then show ?thesis
      using mono_cols_null [OF True, of asm r 0]
      by (cases "mono_cols asm r 0 row") (auto split: option.splits)
  next
    case False
    then obtain a row' where row: "row = Some a # row'"
      using Cons.prems(2) by (cases row) (auto, metis not_None_eq)
    have rest: "None \<in> set (concat rows)" "[] \<notin> set rows"
      using Cons.prems False by auto
    obtain calls where c: "mono_cols asm r 0 row = (None, calls)"
      using mono_cols_no_null [OF False, of asm r 0] by (cases "mono_cols asm r 0 row") auto
    obtain e calls' where
      m: "mono_rows asm (r + size_ALL (index_map (function_space0 a))) rows = (e, calls')"
      by (cases "mono_rows asm (r + size_ALL (index_map (function_space0 a))) rows") auto
    have e: "e = Some (Runtime_error ''Null block not supported/tested yet.'')"
      using Cons.IH [OF rest, of "r + size_ALL (index_map (function_space0 a))"] m by simp
    have "mono_rows asm r (row # rows) = (e, calls @ calls')"
      unfolding mono_rows.simps c using m by (simp add: row)
    then show ?thesis by (simp add: e)
  qed
qed

lemma mono_rows_null_error:
  "None \<in> set (concat rows) \<Longrightarrow> fst (mono_rows asm r rows) \<noteq> None"
proof (induction rows arbitrary: r)
  case Nil
  then show ?case by simp
next
  case (Cons row rows)
  show ?case
  proof (cases "None \<in> set row")
    case True
    then show ?thesis
      using mono_cols_null [OF True, of asm r 0]
      by (cases "mono_cols asm r 0 row") (auto split: option.splits)
  next
    case False
    obtain calls where c: "mono_cols asm r 0 row = (None, calls)"
      using mono_cols_no_null [OF False, of asm r 0] by (cases "mono_cols asm r 0 row") auto
    have rest: "None \<in> set (concat rows)" using Cons.prems False by auto
    show ?thesis
    proof (cases row)
      case Nil
      then show ?thesis using c by simp
    next
      case (Cons x row')
      then obtain a where row: "row = Some a # row'" using False by (cases x) auto
      obtain e calls' where
        m: "mono_rows asm (r + size_ALL (index_map (function_space0 a))) rows = (e, calls')"
        by (cases "mono_rows asm (r + size_ALL (index_map (function_space0 a))) rows") auto
      have e: "e \<noteq> None"
        using Cons.IH [OF rest, of "r + size_ALL (index_map (function_space0 a))"] m by simp
      have "mono_rows asm r (row # rows) = (e, calls @ calls')"
        unfolding mono_rows.simps c using m by (simp add: row)
      then show ?thesis by (simp add: e)
    qed
  qed
qed

text \<open>
  Claim C4. On a matrix of nested type (existing, or initialised on request), the
  assembly raises no error whatever blocks are null, and the calls it makes are those of
  the non-null blocks, row by row, followed by the final apply: a null block contributes
  no call. On a matrix of another type with more than one block, a null block anywhere in
  the array makes the assembly end in an error: the runtime error
  \<open>Null block not supported/tested yet.\<close> whenever no row of the array is empty.
\<close>

theorem null_block_nested_vs_monolithic:
  assumes "asm_a asm \<noteq> []" and "init_if_empty asm block_type A = (None, A1)"
  shows "(mat_type A1 = Some MATNEST \<longrightarrow>
            assemble_matrix asm block_type A =
              (None, A1\<lparr>mat_calls := mat_calls A1 @ nest_calls_of_blocks asm
                                        @ [Apply Whole FINAL]\<rparr>)) \<and>
         (mat_type A1 \<noteq> Some MATNEST \<and> block_matrix asm \<and> None \<in> set (concat (asm_a asm)) \<longrightarrow>
            fst (assemble_matrix asm block_type A) \<noteq> None \<and>
            ([] \<notin> set (asm_a asm) \<longrightarrow>
               fst (assemble_matrix asm block_type A) =
                 Some (Runtime_error ''Null block not supported/tested yet.'')))"
proof (intro conjI impI)
  assume "mat_type A1 = Some MATNEST"
  then show "assemble_matrix asm block_type A =
      (None, A1\<lparr>mat_calls := mat_calls A1 @ nest_calls_of_blocks asm @ [Apply Whole FINAL]\<rparr>)"
    using assms by (simp add: assemble_matrix_def nest_rows_blocks)
next
  assume h: "mat_type A1 \<noteq> Some MATNEST \<and> block_matrix asm \<and> None \<in> set (concat (asm_a asm))"
  then have "fst (mono_rows asm 0 (asm_a asm)) \<noteq> None"
    by (simp add: mono_rows_null_error)
  then show "fst (assemble_matrix asm block_type A) \<noteq> None"
    using assms h
    by (cases "mono_rows asm 0 (asm_a asm)") (auto simp: assemble_matrix_def)
next
  assume h: "mat_type A1 \<noteq> Some MATNEST \<and> block_matrix asm \<and> None \<in> set (concat (asm_a asm))"
    and ne: "[] \<notin> set (asm_a asm)"
  then have "fst (mono_rows asm 0 (asm_a asm)) =
      Some (Runtime_error ''Null block not supported/tested yet.'')"
    by (simp add: mono_rows_null)
  then show "fst (assemble_matrix asm block_type A) =
      Some (Runtime_error ''Null block not supported/tested yet.'')"
    using assms h
    by (cases "mono_rows asm 0 (asm_a asm)") (auto simp: assemble_matrix_def)
qed

theorem null_block_nested_vs_monolithic_witness:
  "asm_a (assembler_of [[Some (form_on space_P space_P), None],
                        [Some (form_on space_Q space_P), Some (form_on space_Q space_Q)]] []) \<noteq> [] \<and>
   init_if_empty (assembler_of [[Some (form_on space_P space_P), None],
                        [Some (form_on space_Q space_P), Some (form_on space_Q space_Q)]] [])
      nested empty_matrix = (None, \<lparr>mat_type = Some MATNEST, mat_calls = [Init_nest_matrix]\<rparr>) \<and>
   fst (assemble_matrix (assembler_of [[Some (form_on space_P space_P), None],
                        [Some (form_on space_Q space_P), Some (form_on space_Q space_Q)]] [])
      nested empty_matrix) = None \<and>
   init_if_empty (assembler_of [[Some (form_on space_P space_P), None],
                        [Some (form_on space_Q space_P), Some (form_on space_Q space_Q)]] [])
      monolithic empty_matrix = (None, \<lparr>mat_type = Some MATOTHER, mat_calls = [Init_monolithic_matrix]\<rparr>) \<and>
   fst (assemble_matrix (assembler_of [[Some (form_on space_P space_P), None],
                        [Some (form_on space_Q space_P), Some (form_on space_Q space_Q)]] [])
      monolithic empty_matrix) = Some (Runtime_error ''Null block not supported/tested yet.'')"
proof -
  let ?asm = "assembler_of [[Some (form_on space_P space_P), None],
                        [Some (form_on space_Q space_P), Some (form_on space_Q space_Q)]] []"
  have h1: "asm_a ?asm \<noteq> []" by (simp add: assembler_of_def)
  have h2: "init_if_empty ?asm nested empty_matrix
      = (None, \<lparr>mat_type = Some MATNEST, mat_calls = [Init_nest_matrix]\<rparr>)"
    by (simp add: init_if_empty_def empty_matrix_def)
  have h3: "init_if_empty ?asm monolithic empty_matrix
      = (None, \<lparr>mat_type = Some MATOTHER, mat_calls = [Init_monolithic_matrix]\<rparr>)"
    by (simp add: init_if_empty_def empty_matrix_def block_matrix_def assembler_of_def)
  have s: "block_matrix ?asm \<and> None \<in> set (concat (asm_a ?asm))" "[] \<notin> set (asm_a ?asm)"
    by (simp_all add: block_matrix_def assembler_of_def)
  have c1: "fst (assemble_matrix ?asm nested empty_matrix) = None"
    using null_block_nested_vs_monolithic [OF h1 h2] by simp
  have c2: "fst (assemble_matrix ?asm monolithic empty_matrix)
      = Some (Runtime_error ''Null block not supported/tested yet.'')"
    using null_block_nested_vs_monolithic [OF h1 h3] s by simp
  show ?thesis using h1 h2 h3 c1 c2 by blast
qed

subsection \<open>Offsets of the monolithic branch\<close>

lemma local_submatrix_calls_append:
  "local_submatrix_calls (xs @ ys) = local_submatrix_calls xs @ local_submatrix_calls ys"
  by (induction xs rule: local_submatrix_calls.induct) simp_all

lemma local_submatrix_calls_assemble_form: "local_submatrix_calls (assemble_form M a bcs) = []"
proof -
  have "local_submatrix_calls (map (assemble_cell M a bv0 bv1) cs) = []" for bv0 bv1 cs
    by (induction cs) (simp_all add: assemble_cell_def Let_def)
  then show ?thesis by (simp add: assemble_form_def Let_def)
qed

lemma local_submatrix_calls_diagonal_add: "local_submatrix_calls (diagonal_add_local M n bv) = []"
  by (induction bv) (simp_all add: diagonal_add_local_def)

lemma local_submatrix_calls_mono_block:
  "local_submatrix_calls (mono_block asm r c f) = [block_index_sets r c f]"
  by (simp add: mono_block_def Let_def local_submatrix_calls_append
      local_submatrix_calls_assemble_form local_submatrix_calls_diagonal_add block_index_sets_def)

lemma offset_col_of_Cons:
  "offset_col_of sz (f # fs) 0 = 0"
  "offset_col_of sz (f # fs) (Suc j) = sz (index_map (function_space1 f)) + offset_col_of sz fs j"
  by (simp_all add: offset_col_of_def)

lemma offset_row_of_Cons:
  "offset_row_of sz (row # rows) 0 = 0"
  "offset_row_of sz (row # rows) (Suc i) =
     sz (index_map (function_space0 (hd row))) + offset_row_of sz rows i"
  by (simp_all add: offset_row_of_def)

lemma mono_cols_all_present:
  "fst (mono_cols asm r c (map Some fs)) = None \<and>
   local_submatrix_calls (snd (mono_cols asm r c (map Some fs))) =
     map (\<lambda>j. block_index_sets r (c + offset_col_of size_ALL fs j) (fs ! j)) [0..<length fs]"
proof (induction fs arbitrary: c)
  case Nil
  then show ?case by simp
next
  case (Cons f fs)
  show ?case
    using Cons.IH [of "c + size_ALL (index_map (function_space1 f))"]
    by (simp add: split_def local_submatrix_calls_append local_submatrix_calls_mono_block
        upt_conv_Cons [of 0] map_Suc_upt [symmetric] comp_def offset_col_of_Cons add.assoc
        del: upt_Suc)
qed

lemma mono_rows_all_present:
  "[] \<notin> set fa \<Longrightarrow>
   fst (mono_rows asm r (map (map Some) fa)) = None \<and>
   local_submatrix_calls (snd (mono_rows asm r (map (map Some) fa))) =
     concat (map (\<lambda>i. map (\<lambda>j. block_index_sets (r + offset_row_of size_ALL fa i)
                                  (offset_col_of size_ALL (fa ! i) j) (fa ! i ! j))
                          [0..<length (fa ! i)])
                 [0..<length fa])"
proof (induction fa arbitrary: r)
  case Nil
  then show ?case by simp
next
  case (Cons row fa)
  then obtain f fs where row: "row = f # fs" by (cases row) auto
  have ne: "[] \<notin> set fa" using Cons.prems by simp
  obtain calls where c: "mono_cols asm r 0 (map Some row) = (None, calls)"
    using mono_cols_all_present [of asm r 0 row] by (cases "mono_cols asm r 0 (map Some row)") auto
  have cc: "local_submatrix_calls calls =
      map (\<lambda>j. block_index_sets r (offset_col_of size_ALL row j) (row ! j)) [0..<length row]"
    using mono_cols_all_present [of asm r 0 row] c by simp
  obtain e calls' where
    m: "mono_rows asm (r + size_ALL (index_map (function_space0 f))) (map (map Some) fa) = (e, calls')"
    by (cases "mono_rows asm (r + size_ALL (index_map (function_space0 f))) (map (map Some) fa)") auto
  have ih: "e = None" "local_submatrix_calls calls' =
     concat (map (\<lambda>i. map (\<lambda>j. block_index_sets
                 (r + size_ALL (index_map (function_space0 f)) + offset_row_of size_ALL fa i)
                                  (offset_col_of size_ALL (fa ! i) j) (fa ! i ! j))
                          [0..<length (fa ! i)])
                 [0..<length fa])"
    using Cons.IH [OF ne, of "r + size_ALL (index_map (function_space0 f))"] m by simp_all
  have res: "mono_rows asm r (map (map Some) (row # fa)) = (None, calls @ calls')"
    unfolding list.map mono_rows.simps c using m ih(1) by (simp add: row)
  show ?case
    unfolding res
    by (simp add: local_submatrix_calls_append cc ih(2) upt_conv_Cons [of 0]
        map_Suc_upt [symmetric] comp_def offset_row_of_Cons row add.assoc del: upt_Suc)
qed

text \<open>
  Claim C5, as amended. Under the monolithic branch (a matrix that is not nested, more
  than one block, every block present and no row empty), the index sets of block \<open>(i, j)\<close>
  start at the sum of the \<open>ALL\<close> sizes (owned + ghost) of the test-space index maps of the
  first blocks of the rows before \<open>i\<close>, and at the sum of the \<open>ALL\<close> sizes of the trial-space
  index maps of the blocks before \<open>j\<close> in row \<open>i\<close>.
\<close>

theorem monolithic_offsets_sum_all:
  assumes "asm_a asm = map (map Some) fa" and "fa \<noteq> []" and "[] \<notin> set fa"
    and "block_matrix asm" and "init_if_empty asm block_type A = (None, A1)"
    and "mat_type A1 \<noteq> Some MATNEST"
  shows "fst (assemble_matrix asm block_type A) = None \<and>
         local_submatrix_calls (mat_calls (snd (assemble_matrix asm block_type A))) =
           local_submatrix_calls (mat_calls A1) @ index_sets_by_rule size_ALL fa"
proof -
  obtain calls where m: "mono_rows asm 0 (asm_a asm) = (None, calls)"
    using mono_rows_all_present [OF assms(3), of asm 0] assms(1)
    by (cases "mono_rows asm 0 (asm_a asm)") auto
  have c: "local_submatrix_calls calls = index_sets_by_rule size_ALL fa"
    using mono_rows_all_present [OF assms(3), of asm 0] assms(1) m
    by (simp add: index_sets_by_rule_def)
  have "assemble_matrix asm block_type A =
      (None, A1\<lparr>mat_calls := mat_calls A1 @ calls @ [Apply Whole FINAL] @ [Apply Whole FINAL]\<rparr>)"
    using assms m by (simp add: assemble_matrix_def)
  then show ?thesis
    by (simp add: local_submatrix_calls_append c)
qed

theorem monolithic_offsets_sum_all_witness:
  "local_submatrix_calls (mat_calls (snd (assemble_matrix
      (assembler_of [[Some (form_on space_P space_P), Some (form_on space_P space_Q)],
                     [Some (form_on space_Q space_P), Some (form_on space_Q space_Q)]] [])
      monolithic empty_matrix))) =
    [(ISBlock 1 [0, 1, 2], ISBlock 1 [0, 1, 2]), (ISBlock 1 [0, 1, 2], ISBlock 1 [3, 4, 5, 6]),
     (ISBlock 1 [3, 4, 5, 6], ISBlock 1 [0, 1, 2]), (ISBlock 1 [3, 4, 5, 6], ISBlock 1 [3, 4, 5, 6])]"
proof -
  let ?fa = "[[form_on space_P space_P, form_on space_P space_Q],
              [form_on space_Q space_P, form_on space_Q space_Q]]"
  let ?asm = "assembler_of [[Some (form_on space_P space_P), Some (form_on space_P space_Q)],
                     [Some (form_on space_Q space_P), Some (form_on space_Q space_Q)]] []"
  have h1: "asm_a ?asm = map (map Some) ?fa" by (simp add: assembler_of_def)
  have h2: "?fa \<noteq> []" by simp
  have h3: "[] \<notin> set ?fa" by simp
  have h4: "block_matrix ?asm" by (simp add: block_matrix_def assembler_of_def)
  have h5: "init_if_empty ?asm monolithic empty_matrix
      = (None, \<lparr>mat_type = Some MATOTHER, mat_calls = [Init_monolithic_matrix]\<rparr>)"
    by (simp add: init_if_empty_def empty_matrix_def block_matrix_def assembler_of_def)
  have h6: "mat_type \<lparr>mat_type = Some MATOTHER, mat_calls = [Init_monolithic_matrix]\<rparr> \<noteq> Some MATNEST"
    by simp
  have r: "index_sets_by_rule size_ALL ?fa =
    [(ISBlock 1 [0, 1, 2], ISBlock 1 [0, 1, 2]), (ISBlock 1 [0, 1, 2], ISBlock 1 [3, 4, 5, 6]),
     (ISBlock 1 [3, 4, 5, 6], ISBlock 1 [0, 1, 2]), (ISBlock 1 [3, 4, 5, 6], ISBlock 1 [3, 4, 5, 6])]"
    by code_simp
  show ?thesis
    using monolithic_offsets_sum_all [OF h1 h2 h3 h4 h5 h6] r by simp
qed

text \<open>
  The claim as stated, with sums of owned sizes, fails on a two-by-two block array over
  \<open>space_P\<close> and \<open>space_Q\<close>, whose index maps have ghosts: the second block column starts
  at 3, the \<open>ALL\<close> size of \<open>space_P\<close>, not at its owned size 2.
\<close>

theorem monolithic_offsets_not_owned_sums:
  "local_submatrix_calls (mat_calls (snd (assemble_matrix
      (assembler_of [[Some (form_on space_P space_P), Some (form_on space_P space_Q)],
                     [Some (form_on space_Q space_P), Some (form_on space_Q space_Q)]] [])
      monolithic empty_matrix))) \<noteq>
    index_sets_by_rule size_OWNED
      [[form_on space_P space_P, form_on space_P space_Q],
       [form_on space_Q space_P, form_on space_Q space_Q]]"
  by code_simp

subsection \<open>Errors and synchronisation of the monolithic branch\<close>

text \<open>
  Claim C8. A structural error should leave the container as it was. Under the
  monolithic branch, with the block array \<open>[[a, null]]\<close>, the null block is met only
  after block \<open>(0, 0)\<close> has been assembled: the call ends in the runtime error with the
  element matrices of both cells of block \<open>(0, 0)\<close> already added to the matrix.
\<close>

theorem monolithic_null_block_after_insertion:
  "assemble_matrix (assembler_of [[Some (form_on space_Q space_Q), None]] []) monolithic
      \<lparr>mat_type = Some MATOTHER, mat_calls = []\<rparr> =
     (Some (Runtime_error ''Null block not supported/tested yet.''),
      \<lparr>mat_type = Some MATOTHER,
       mat_calls = [GetLocalSubMatrix (ISBlock 1 [0, 1, 2, 3]) (ISBlock 1 [0, 1, 2, 3]),
                    Add_local (LocalSubMatrix (ISBlock 1 [0, 1, 2, 3]) (ISBlock 1 [0, 1, 2, 3]))
                      [0] [0] [[1]],
                    Add_local (LocalSubMatrix (ISBlock 1 [0, 1, 2, 3]) (ISBlock 1 [0, 1, 2, 3]))
                      [1] [1] [[11]],
                    Apply (LocalSubMatrix (ISBlock 1 [0, 1, 2, 3]) (ISBlock 1 [0, 1, 2, 3])) FLUSH,
                    RestoreLocalSubMatrix (ISBlock 1 [0, 1, 2, 3]) (ISBlock 1 [0, 1, 2, 3])]\<rparr>)"
  by code_simp

text \<open>
  A successful run of the monolithic branch ends with two final applies in a row: the
  one at the end of the branch and the unconditional one at the end of the function.
\<close>

lemma monolithic_ends_with_two_FINAL:
  assumes "asm_a asm \<noteq> []" and "init_if_empty asm block_type A = (None, A1)"
    and "mat_type A1 \<noteq> Some MATNEST" and "block_matrix asm"
    and "fst (assemble_matrix asm block_type A) = None"
  shows "\<exists>calls. mat_calls (snd (assemble_matrix asm block_type A)) =
           mat_calls A1 @ calls @ [Apply Whole FINAL, Apply Whole FINAL]"
  using assms
  by (cases "mono_rows asm 0 (asm_a asm)") (auto simp: assemble_matrix_def split: option.splits)

text \<open>
  Claim C9. The final synchronisation should occur exactly once per assembly call. Under
  the monolithic branch, with the block array \<open>[[a, a']]\<close> of two present blocks, the
  call succeeds and applies \<open>FINAL\<close> on the matrix twice.
\<close>

theorem monolithic_final_applied_twice:
  "filter (\<lambda>c. c = Apply Whole FINAL)
     (mat_calls (snd (assemble_matrix
        (assembler_of [[Some (form_on space_Q space_Q), Some (form_on space_Q space_P)]] [])
        monolithic empty_matrix))) = [Apply Whole FINAL, Apply Whole FINAL] \<and>
   fst (assemble_matrix
        (assembler_of [[Some (form_on space_Q space_Q), Some (form_on space_Q space_P)]] [])
        monolithic empty_matrix) = None"
  by code_simp

section \<open>Properties of the vector assembly\<close>

subsection \<open>Boundary-value maps\<close>

lemma map_of_map_set: "map_of (map_set k v m) = (map_of m)(k \<mapsto> v)"
  by (induction k v m rule: map_set.induct) (auto simp: fun_eq_iff)

lemma keys_map_set: "fst ` set (map_set k v m) = insert k (fst ` set m)"
  by (induction k v m rule: map_set.induct) auto

lemma sorted_map_set:
  "sorted_wrt (<) (map fst m) \<Longrightarrow> sorted_wrt (<) (map fst (map_set k v m))"
proof (induction k v m rule: map_set.induct)
  case (1 k v)
  then show ?case by simp
next
  case (2 k v k' v' m)
  have keys: "fst ` set (map_set k v m) = insert k (fst ` set m)" by (rule keys_map_set)
  show ?case
    using 2 keys by (auto simp: image_iff)
qed

lemma fold_map_set:
  "map_of (fold (\<lambda>(d, g). map_set d g) xs m) = map_of m ++ map_of (rev xs)"
  by (induction xs arbitrary: m) (auto simp: map_of_map_set fun_eq_iff map_add_def split: option.splits)

lemma sorted_fold_map_set:
  "sorted_wrt (<) (map fst m) \<Longrightarrow> sorted_wrt (<) (map fst (fold (\<lambda>(d, g). map_set d g) xs m))"
  by (induction xs arbitrary: m) (auto simp: sorted_map_set)

lemma sorted_collect:
  "sorted_wrt (<) (map fst bv) \<Longrightarrow>
     sorted_wrt (<) (map fst (collect_boundary_values n V bcs bv))"
  by (induction bcs arbitrary: bv)
     (auto simp: get_boundary_values_def gather_def Let_def sorted_fold_map_set)

lemma distinct_prescribed: "distinct (map fst (prescribed L bcs))"
proof -
  have "sorted_wrt (<) (map fst (prescribed L bcs))"
    unfolding prescribed_def by (rule sorted_collect) simp
  then show ?thesis by (simp add: strict_sorted_iff)
qed

subsection \<open>The assignments of \<open>set_bc\<close>\<close>

lemma assign_fold:
  fixes offset n :: nat
  defines "step \<equiv> (\<lambda>bc v. if fst bc < n
                        then v\<lparr>vec_array := (vec_array v)[offset + fst bc := snd bc],
                               vec_events := vec_events v @ [Array_assign (offset + fst bc) (snd bc)]\<rparr>
                        else v)"
  shows "vec_events (fold step bv v) = vec_events v @ bc_assignments offset n bv"
    and "length (vec_array (fold step bv v)) = length (vec_array v)"
    and "vec_local_size (fold step bv v) = vec_local_size v"
    and "p \<notin> (\<lambda>bc. offset + fst bc) ` set bv \<Longrightarrow>
           vec_array (fold step bv v) ! p = vec_array v ! p"
proof (induction bv arbitrary: v)
  case Nil
  {
    case 1 show ?case by (simp add: bc_assignments_def)
  next
    case 2 show ?case by simp
  next
    case 3 show ?case by simp
  next
    case 4 show ?case by simp
  }
next
  case (Cons bc bv)
  {
    case 1 show ?case
      using Cons.IH(1) [of "step bc v"] by (simp add: bc_assignments_def step_def)
  next
    case 2 show ?case
      using Cons.IH(2) [of "step bc v"] by (simp add: step_def)
  next
    case 3 show ?case
      using Cons.IH(3) [of "step bc v"] by (simp add: step_def)
  next
    case 4
    then have "p \<notin> (\<lambda>bc. offset + fst bc) ` set bv" and "p \<noteq> offset + fst bc" by auto
    then show ?case
      using Cons.IH(4) [of "step bc v"] by (simp add: step_def)
  }
qed

lemma assign_fold_value:
  fixes offset n :: nat
  defines "step \<equiv> (\<lambda>bc v. if fst bc < n
                        then v\<lparr>vec_array := (vec_array v)[offset + fst bc := snd bc],
                               vec_events := vec_events v @ [Array_assign (offset + fst bc) (snd bc)]\<rparr>
                        else v)"
  assumes "distinct (map fst bv)" and "(d, g) \<in> set bv" and "d < n"
    and "offset + d < length (vec_array v)"
  shows "vec_array (fold step bv v) ! (offset + d) = g"
  using assms(2-)
proof (induction bv arbitrary: v)
  case Nil
  then show ?case by simp
next
  case (Cons bc bv)
  show ?case
  proof (cases "bc = (d, g)")
    case True
    have "offset + d \<notin> (\<lambda>bc. offset + fst bc) ` set bv"
      using Cons.prems(1) True by (auto simp: image_iff)
    then have "vec_array (fold step bv (step bc v)) ! (offset + d) = vec_array (step bc v) ! (offset + d)"
      unfolding step_def by (rule assign_fold(4))
    then show ?thesis
      using True Cons.prems by (simp add: step_def)
  next
    case False
    have len: "offset + d < length (vec_array (step bc v))"
      using Cons.prems(4) by (simp add: step_def)
    show ?thesis
      using Cons.IH [of "step bc v"] Cons.prems False len by auto
  qed
qed

lemma set_bc_events:
  "vec_events (set_bc offset n L bcs v) = vec_events v @ bc_assignments offset n (prescribed L bcs)"
  unfolding set_bc_def prescribed_def Let_def by (rule assign_fold(1))

lemma set_bc_length: "length (vec_array (set_bc offset n L bcs v)) = length (vec_array v)"
  unfolding set_bc_def Let_def by (rule assign_fold(2))

lemma set_bc_local_size: "vec_local_size (set_bc offset n L bcs v) = vec_local_size v"
  unfolding set_bc_def Let_def by (rule assign_fold(3))

lemma set_bc_below: "p < offset \<Longrightarrow> vec_array (set_bc offset n L bcs v) ! p = vec_array v ! p"
  unfolding set_bc_def Let_def by (rule assign_fold(4)) auto

lemma set_bc_holds:
  assumes "offset + n \<le> length (vec_array v)"
  shows "segment_holds offset n (prescribed L bcs) (vec_array (set_bc offset n L bcs v))"
  unfolding segment_holds_def
proof (intro allI impI)
  fix d g
  assume h: "map_of (prescribed L bcs) d = Some g \<and> d < n"
  then have mem: "(d, g) \<in> set (prescribed L bcs)" by (auto dest: map_of_SomeD)
  have dn: "d < n" using h by simp
  have len: "offset + d < length (vec_array v)" using h assms by simp
  show "vec_array (set_bc offset n L bcs v) ! (offset + d) = g"
    unfolding set_bc_def Let_def prescribed_def [symmetric]
    by (rule assign_fold_value [OF distinct_prescribed mem dn len])
qed

subsection \<open>The blocks and the loops\<close>

lemma VecGhostUpdate_simps:
  "length (vec_array (VecGhostUpdate inc v)) = length (vec_array v)"
  "vec_local_size (VecGhostUpdate inc v) = vec_local_size v"
  "vec_events (VecGhostUpdate inc v) = vec_events v @ [GhostUpdate_ADD_REVERSE]"
  by (simp_all add: VecGhostUpdate_def)

lemma add_to_vector_length: "length (add_to_vector dmap be b) = length b"
proof -
  have "length (fold (\<lambda>i b. b[dmap ! i := b ! (dmap ! i) + be ! i]) is b) = length b" for "is"
    by (induction "is" arbitrary: b) simp_all
  then show ?thesis by (simp add: add_to_vector_def)
qed

lemma assemble_eigen_length: "length (assemble_eigen L b) = length b"
proof -
  have "length (fold (\<lambda>c b. let dmap = cell_dofs (function_space0 L) c
                 in add_to_vector dmap (tabulate_be L c (length dmap)) b) cs b) = length b" for cs
    by (induction cs arbitrary: b) (simp_all add: Let_def add_to_vector_length)
  then show ?thesis by (simp add: assemble_eigen_def)
qed

lemma nest_vec_block_spec:
  "vec_events (nest_vec_block inc bcs L sub) =
     vec_events sub @ GhostUpdate_ADD_REVERSE
       # bc_assignments 0 (vec_local_size sub) (prescribed L bcs)"
  "vec_local_size (nest_vec_block inc bcs L sub) = vec_local_size sub"
  "vec_local_size sub \<le> length (vec_array sub) \<Longrightarrow>
     segment_holds 0 (vec_local_size sub) (prescribed L bcs)
       (vec_array (nest_vec_block inc bcs L sub))"
  by (simp_all add: nest_vec_block_def Let_def set_bc_events set_bc_local_size VecGhostUpdate_simps
      set_bc_holds assemble_eigen_length)

lemma single_vec_spec:
  "vec_events (single_vec inc bcs L v) =
     vec_events v @ GhostUpdate_ADD_REVERSE # bc_assignments 0 (owned_size L) (prescribed L bcs)"
  "owned_size L \<le> length (vec_array v) \<Longrightarrow>
     segment_holds 0 (owned_size L) (prescribed L bcs) (vec_array (single_vec inc bcs L v))"
  by (simp_all add: single_vec_def Let_def set_bc_events VecGhostUpdate_simps
      set_bc_holds assemble_eigen_length)

lemma nest_vec_loop_spec:
  "i + length Ls \<le> length subs \<Longrightarrow>
   fst (nest_vec_loop inc bcs i Ls subs) = None \<and>
   length (snd (nest_vec_loop inc bcs i Ls subs)) = length subs \<and>
   (\<forall>k < length Ls. snd (nest_vec_loop inc bcs i Ls subs) ! (i + k) =
       nest_vec_block (inc (i + k)) bcs (Ls ! k) (subs ! (i + k))) \<and>
   (\<forall>k < i. snd (nest_vec_loop inc bcs i Ls subs) ! k = subs ! k)"
proof (induction Ls arbitrary: i subs)
  case Nil
  then show ?case by simp
next
  case (Cons L Ls)
  let ?subs1 = "subs[i := nest_vec_block (inc i) bcs L (subs ! i)]"
  have i: "i < length subs" using Cons.prems by simp
  have "Suc i + length Ls \<le> length ?subs1" using Cons.prems by simp
  note ih = Cons.IH [OF this]
  have eq: "nest_vec_loop inc bcs i (L # Ls) subs = nest_vec_loop inc bcs (Suc i) Ls ?subs1"
    using i by simp
  show ?case
    unfolding eq
  proof (intro conjI allI impI)
    show "fst (nest_vec_loop inc bcs (Suc i) Ls ?subs1) = None" using ih by simp
    show "length (snd (nest_vec_loop inc bcs (Suc i) Ls ?subs1)) = length subs" using ih by simp
  next
    fix k assume k: "k < length (L # Ls)"
    show "snd (nest_vec_loop inc bcs (Suc i) Ls ?subs1) ! (i + k) =
       nest_vec_block (inc (i + k)) bcs ((L # Ls) ! k) (subs ! (i + k))"
    proof (cases k)
      case 0
      then show ?thesis using ih i by simp
    next
      case (Suc k')
      then have "k' < length Ls" using k by simp
      then have "snd (nest_vec_loop inc bcs (Suc i) Ls ?subs1) ! (Suc i + k') =
         nest_vec_block (inc (Suc i + k')) bcs (Ls ! k') (?subs1 ! (Suc i + k'))"
        using ih by blast
      then show ?thesis using Suc by simp
    qed
  next
    fix k assume "k < i"
    then show "snd (nest_vec_loop inc bcs (Suc i) Ls ?subs1) ! k = subs ! k"
      using ih by simp
  qed
qed

lemma owned_offset_Cons:
  "owned_offset (L # Ls) 0 = 0"
  "owned_offset (L # Ls) (Suc i) = owned_size L + owned_offset Ls i"
  by (simp_all add: owned_offset_def)

lemma mono_set_bc_loop_events:
  "vec_events (mono_set_bc_loop bcs off Ls v) =
     vec_events v @ concat (map (\<lambda>i. bc_assignments (off + owned_offset Ls i) (owned_size (Ls ! i))
                                       (prescribed (Ls ! i) bcs)) [0..<length Ls])"
proof (induction Ls arbitrary: off v)
  case Nil
  then show ?case by simp
next
  case (Cons L Ls)
  show ?case
    by (simp add: Cons.IH set_bc_events upt_conv_Cons [of 0] map_Suc_upt [symmetric] comp_def
        owned_offset_Cons add.assoc del: upt_Suc)
qed

lemma mono_set_bc_loop_length:
  "length (vec_array (mono_set_bc_loop bcs off Ls v)) = length (vec_array v)"
  by (induction Ls arbitrary: off v) (simp_all add: set_bc_length)

lemma mono_set_bc_loop_below:
  "p < off \<Longrightarrow> vec_array (mono_set_bc_loop bcs off Ls v) ! p = vec_array v ! p"
  by (induction Ls arbitrary: off v) (simp_all add: set_bc_below)

lemma mono_set_bc_loop_holds:
  "off + sum_list (map owned_size Ls) \<le> length (vec_array v) \<Longrightarrow> i < length Ls \<Longrightarrow>
     segment_holds (off + owned_offset Ls i) (owned_size (Ls ! i)) (prescribed (Ls ! i) bcs)
       (vec_array (mono_set_bc_loop bcs off Ls v))"
proof (induction Ls arbitrary: off v i)
  case Nil
  then show ?case by simp
next
  case (Cons L Ls)
  let ?v1 = "set_bc off (owned_size L) L bcs v"
  show ?case
  proof (cases i)
    case 0
    have "segment_holds off (owned_size L) (prescribed L bcs) (vec_array ?v1)"
      using Cons.prems(1) by (intro set_bc_holds) simp
    then show ?thesis
      using 0 by (simp add: segment_holds_def owned_offset_Cons mono_set_bc_loop_below)
  next
    case (Suc i')
    have "off + owned_size L + sum_list (map owned_size Ls) \<le> length (vec_array ?v1)"
      using Cons.prems(1) by (simp add: set_bc_length)
    moreover have "i' < length Ls" using Cons.prems(2) Suc by simp
    ultimately show ?thesis
      using Cons.IH [of "off + owned_size L" ?v1 i'] Suc
      by (simp add: owned_offset_Cons add.assoc)
  qed
qed

lemma mono_vec_spec:
  "vec_events (mono_vec inc bcs Ls v) =
     vec_events v @ GhostUpdate_ADD_REVERSE
       # concat (map (\<lambda>i. bc_assignments (owned_offset Ls i) (owned_size (Ls ! i))
                              (prescribed (Ls ! i) bcs)) [0..<length Ls])"
  "sum_list (map owned_size Ls) \<le> length (vec_array v) \<Longrightarrow> i < length Ls \<Longrightarrow>
     segment_holds (owned_offset Ls i) (owned_size (Ls ! i)) (prescribed (Ls ! i) bcs)
       (vec_array (mono_vec inc bcs Ls v))"
proof -
  show "vec_events (mono_vec inc bcs Ls v) =
     vec_events v @ GhostUpdate_ADD_REVERSE
       # concat (map (\<lambda>i. bc_assignments (owned_offset Ls i) (owned_size (Ls ! i))
                              (prescribed (Ls ! i) bcs)) [0..<length Ls])"
    by (simp add: mono_vec_def Let_def mono_set_bc_loop_events VecGhostUpdate_simps)
next
  have len: "length (fold (mono_vec_block Ls) is arr) = length arr" for "is" arr
  proof (induction "is" arbitrary: arr)
    case Nil
    then show ?case by simp
  next
    case (Cons i "is")
    have f: "length (fold (\<lambda>j vs. vs[f j := g j]) js vs) = length vs"
      for f :: "nat \<Rightarrow> nat" and g :: "nat \<Rightarrow> real" and js vs
      by (induction js arbitrary: vs) simp_all
    have "length (mono_vec_block Ls i arr) = length arr"
      by (simp add: mono_vec_block_def Let_def f)
    then show ?case using Cons.IH by simp
  qed
  assume "sum_list (map owned_size Ls) \<le> length (vec_array v)" and "i < length Ls"
  then show "segment_holds (owned_offset Ls i) (owned_size (Ls ! i)) (prescribed (Ls ! i) bcs)
       (vec_array (mono_vec inc bcs Ls v))"
    using mono_set_bc_loop_holds [of 0 Ls
        "VecGhostUpdate inc (v\<lparr>vec_array := fold (mono_vec_block Ls) [0..<length Ls] (vec_array v)\<rparr>)"
        i bcs]
    by (simp add: mono_vec_def Let_def VecGhostUpdate_simps len)
qed

subsection \<open>Last write wins\<close>

lemma collect_map_of:
  "map_of (collect_boundary_values n V bcs bv) =
     fold (\<lambda>bc m. if applies_to V bc then m ++ map_of (rev (bc_contribution n bc)) else m)
       bcs (map_of bv)"
proof (induction bcs arbitrary: bv)
  case Nil
  then show ?case by simp
next
  case (Cons bc bcs)
  show ?case
    by (simp add: Cons.IH applies_to_def bc_contribution_def get_boundary_values_def gather_def
        fold_map_set Let_def)
qed

lemma fold_untouched:
  "\<forall>bc' \<in> set post. applies_to V bc' \<longrightarrow> d \<notin> fst ` set (bc_contribution n bc') \<Longrightarrow>
   fold (\<lambda>bc m. if applies_to V bc then m ++ map_of (rev (bc_contribution n bc)) else m) post m d
     = m d"
proof (induction post arbitrary: m)
  case Nil
  then show ?case by simp
next
  case (Cons bc post)
  have "d \<notin> fst ` set (bc_contribution n bc)" if "applies_to V bc"
    using Cons.prems that by simp
  then have "map_of (rev (bc_contribution n bc)) d = None" if "applies_to V bc"
    using that by (simp add: map_of_eq_None_iff)
  then show ?case
    using Cons by (simp add: map_add_def)
qed

lemma last_write_wins:
  assumes "last_prescription L bcs d g"
  shows "map_of (prescribed L bcs) d = Some g"
proof -
  obtain pre bc post where
    bcs: "bcs = pre @ bc # post" and ap: "applies_to (function_space0 L) bc" and
    v: "map_of (rev (bc_contribution (mesh_mpi_size L) bc)) d = Some g" and
    post: "\<forall>bc' \<in> set post. applies_to (function_space0 L) bc' \<longrightarrow>
           d \<notin> fst ` set (bc_contribution (mesh_mpi_size L) bc')"
    using assms unfolding last_prescription_def by blast
  show ?thesis
    unfolding prescribed_def collect_map_of bcs
    using ap v by (simp add: fold_untouched [OF post] map_add_def)
qed

subsection \<open>The whole call\<close>

text \<open>
  A null linear form is refused before anything is done to the vector.
\<close>

lemma null_linear_form_unchanged:
  "asm_l asm \<noteq> [] \<Longrightarrow> None \<in> set (asm_l asm) \<Longrightarrow>
     assemble_vector asm block_type incoming b =
       (Some (Runtime_error ''Cannot have NULL linear form block.''), b)"
proof -
  assume ne: "asm_l asm \<noteq> []" and n: "None \<in> set (asm_l asm)"
  have "those xs = None" if "None \<in> set xs" for xs :: "Form option list"
    using that by (induction xs) (auto split: option.splits)
  then show ?thesis using ne n by (simp add: assemble_vector_def)
qed

text \<open>
  Claim C2. Let the linear forms all be present, and let the vector the call works on
  (the one passed in, or the one initialised when that is empty) be large enough for the
  owned segments. Then, in each of the three branches, the call succeeds; on every
  (sub-)vector it records exactly one ghost update followed by the assignments of the
  prescribed entries, so that no assignment precedes the reduction and every write is an
  assignment of the prescribed value; every prescribed dof below the size of its block's
  owned segment holds its prescribed value in the vector the call leaves, whatever the
  ghost update added; and the prescribed value of a dof is the one written last by the
  last applicable condition of the list that prescribes it.
\<close>

theorem vector_reduce_then_overwrite:
  assumes "asm_l asm \<noteq> []" and "those (asm_l asm) = Some Ls"
    and "init_vector_if_empty asm block_type Ls b = (None, b1)" and "vector_fits Ls b1"
  shows "\<exists>b'. assemble_vector asm block_type incoming b = (None, b') \<and>
           reduced_then_assigned (asm_bcs asm) Ls b1 b' \<and>
           prescribed_values_hold (asm_bcs asm) Ls b' \<and>
           (\<forall>i d g. i < length Ls \<and> last_prescription (Ls ! i) (asm_bcs asm) d g \<longrightarrow>
              map_of (prescribed (Ls ! i) (asm_bcs asm)) d = Some g)"
proof -
  let ?bcs = "asm_bcs asm"
  have lww: "\<forall>i d g. i < length Ls \<and> last_prescription (Ls ! i) ?bcs d g \<longrightarrow>
              map_of (prescribed (Ls ! i) ?bcs) d = Some g"
    by (simp add: last_write_wins)
  show ?thesis
  proof (cases b1)
    case Vec_empty
    then show ?thesis using assms(4) by simp
  next
    case (Vec_nest subs)
    have fits: "length Ls \<le> length subs"
      "\<And>i. i < length Ls \<Longrightarrow> vec_local_size (subs ! i) \<le> length (vec_array (subs ! i))"
      using assms(4) Vec_nest by simp_all
    let ?r = "nest_vec_loop incoming ?bcs 0 Ls subs"
    have sp: "fst ?r = None" "length (snd ?r) = length subs"
      "\<And>k. k < length Ls \<Longrightarrow>
          snd ?r ! k = nest_vec_block (incoming k) ?bcs (Ls ! k) (subs ! k)"
      using nest_vec_loop_spec [of 0 Ls subs incoming ?bcs] fits(1) by simp_all
    have res: "assemble_vector asm block_type incoming b = (None, Vec_nest (snd ?r))"
      using assms(1-3) Vec_nest sp(1) by (simp add: assemble_vector_def split_def)
    have "reduced_then_assigned ?bcs Ls b1 (Vec_nest (snd ?r))"
      using sp by (simp add: Vec_nest nest_vec_block_spec)
    moreover have "prescribed_values_hold ?bcs Ls (Vec_nest (snd ?r))"
      using sp fits(2) by (simp add: nest_vec_block_spec)
    ultimately show ?thesis using res lww by blast
  next
    case (Vec_ghosted v)
    have fits: "sum_list (map owned_size Ls) \<le> length (vec_array v)"
      using assms(4) Vec_ghosted by simp
    show ?thesis
    proof (cases "length Ls > 1")
      case True
      let ?v = "mono_vec (incoming 0) ?bcs Ls v"
      have res: "assemble_vector asm block_type incoming b = (None, Vec_ghosted ?v)"
        using assms(1-3) Vec_ghosted True by (simp add: assemble_vector_def)
      have "reduced_then_assigned ?bcs Ls b1 (Vec_ghosted ?v)"
        by (simp add: Vec_ghosted mono_vec_spec(1))
      moreover have "prescribed_values_hold ?bcs Ls (Vec_ghosted ?v)"
        using fits by (simp add: mono_vec_spec(2))
      ultimately show ?thesis using res lww by blast
    next
      case False
      have "Ls \<noteq> []" using assms(1,2) by (cases "asm_l asm") (auto split: option.splits)
      then obtain L where Ls: "Ls = [L]" using False by (cases Ls) auto
      let ?v = "single_vec (incoming 0) ?bcs L v"
      have res: "assemble_vector asm block_type incoming b = (None, Vec_ghosted ?v)"
        using assms(1-3) Vec_ghosted Ls by (simp add: assemble_vector_def)
      have "reduced_then_assigned ?bcs Ls b1 (Vec_ghosted ?v)"
        by (simp add: Vec_ghosted Ls single_vec_spec(1) owned_offset_def)
      moreover have "prescribed_values_hold ?bcs Ls (Vec_ghosted ?v)"
        using fits by (simp add: Ls single_vec_spec(2) owned_offset_def)
      ultimately show ?thesis using res lww by blast
    qed
  qed
qed

theorem vector_reduce_then_overwrite_witness:
  "those (asm_l (vector_assembler [Some (form_on space_P space_P), Some (form_on space_Q space_Q)]))
     = Some [form_on space_P space_P, form_on space_Q space_Q] \<and>
   init_vector_if_empty
     (vector_assembler [Some (form_on space_P space_P), Some (form_on space_Q space_Q)])
     monolithic [form_on space_P space_P, form_on space_Q space_Q] Vec_empty
     = (None, Vec_ghosted (zero_vec 5 2)) \<and>
   vector_fits [form_on space_P space_P, form_on space_Q space_Q] (Vec_ghosted (zero_vec 5 2)) \<and>
   fst (assemble_vector
     (vector_assembler [Some (form_on space_P space_P), Some (form_on space_Q space_Q)])
     monolithic (\<lambda>i k. 100) Vec_empty) = None \<and>
   prescribed_values_hold [bc_P, bc_P2, bc_Q] [form_on space_P space_P, form_on space_Q space_Q]
     (snd (assemble_vector
       (vector_assembler [Some (form_on space_P space_P), Some (form_on space_Q space_Q)])
       monolithic (\<lambda>i k. 100) Vec_empty)) \<and>
   last_prescription (form_on space_P space_P) [bc_P, bc_P2, bc_Q] 0 7 \<and>
   map_of (prescribed (form_on space_P space_P) [bc_P, bc_P2, bc_Q]) 0 = Some 7"
proof -
  let ?Ls = "[form_on space_P space_P, form_on space_Q space_Q]"
  let ?asm = "vector_assembler [Some (form_on space_P space_P), Some (form_on space_Q space_Q)]"
  have bcs: "asm_bcs ?asm = [bc_P, bc_P2, bc_Q]" by (simp add: vector_assembler_def)
  have h1: "asm_l ?asm \<noteq> []" by (simp add: vector_assembler_def)
  have h2: "those (asm_l ?asm) = Some ?Ls" by (simp add: vector_assembler_def)
  have h3: "init_vector_if_empty ?asm monolithic ?Ls Vec_empty = (None, Vec_ghosted (zero_vec 5 2))"
    by code_simp
  have h4: "vector_fits ?Ls (Vec_ghosted (zero_vec 5 2))"
    by code_simp
  have lp: "last_prescription (form_on space_P space_P) [bc_P, bc_P2, bc_Q] 0 7"
    unfolding last_prescription_def
    by (intro exI [of _ "[bc_P]"] exI [of _ bc_P2] exI [of _ "[bc_Q]"])
       (simp add: applies_to_def bc_contribution_def form_on_def space_P_def bc_P2_def bc_Q_def)
  obtain b' where r: "assemble_vector ?asm monolithic (\<lambda>i k. 100) Vec_empty = (None, b')"
    and p: "prescribed_values_hold [bc_P, bc_P2, bc_Q] ?Ls b'"
    and w: "\<forall>i d g. i < length ?Ls \<and> last_prescription (?Ls ! i) [bc_P, bc_P2, bc_Q] d g \<longrightarrow>
              map_of (prescribed (?Ls ! i) [bc_P, bc_P2, bc_Q]) d = Some g"
    using vector_reduce_then_overwrite [OF h1 h2 h3 h4, of "\<lambda>i k. 100"] unfolding bcs by blast
  have m: "map_of (prescribed (form_on space_P space_P) [bc_P, bc_P2, bc_Q]) 0 = Some 7"
    using w [rule_format, of 0 0 7] lp by simp
  show ?thesis using h2 h3 h4 r p lp m by simp
qed

section \<open>Properties of \<open>apply_bc\<close>\<close>

text \<open>
  A cell none of whose trial-space dofs is prescribed contributes no call, and where the
  two dofmaps coincide the pass adds at the test-space dofs.
\<close>

lemma apply_bc_cell_no_bc:
  "\<not> list_ex (bc_found bv) (cell_dofs (function_space1 a) c) \<Longrightarrow> apply_bc_cell a bv dmap0 c = []"
  by (simp add: apply_bc_cell_def)

lemma apply_bc_same_dofmaps:
  "cell_dofs (function_space0 a) = cell_dofs (function_space1 a) \<Longrightarrow>
     apply_bc a bcs = apply_bc_at_test_dofs a bcs"
  by (simp add: apply_bc_def apply_bc_at_test_dofs_def)

text \<open>
  Claim C3. The pass should add \<open>- sum_j Ae.col(j) * g_j\<close> at the cell's test-space dof
  positions. For a form with test space \<open>space_R\<close> (cell dofs \<open>c + 3\<close>, \<open>c + 4\<close>) and trial
  space \<open>space_P\<close> (cell dofs \<open>c\<close>, \<open>c + 1\<close>), with the values 3 at dof 0 and 5 at dof 2
  prescribed on \<open>space_P\<close>, the code adds the two element vectors at the trial-space dofs
  \<open>[0, 1]\<close> and \<open>[1, 2]\<close>; at the test-space dofs they would go to \<open>[3, 4]\<close> and \<open>[4, 5]\<close>.
\<close>

theorem apply_bc_adds_at_trial_dofs:
  "apply_bc (form_on space_R space_P) [bc_P] =
     [Vector_add_local [- 3, - 9] [0, 1], Vector_add_local [- 60, - 70] [1, 2], Vector_apply] \<and>
   apply_bc_at_test_dofs (form_on space_R space_P) [bc_P] =
     [Vector_add_local [- 3, - 9] [3, 4], Vector_add_local [- 60, - 70] [4, 5], Vector_apply]"
  by code_simp

end
